theory Spec2Isabelle
  imports Main "HOL-Library.AList"
begin

section \<open>Python values and string operations used by \<^verbatim>\<open>pdf_to_audio.py\<close>\<close>

text \<open>
  File names and paths are Python \<^verbatim>\<open>str\<close> values; they are modelled as HOL strings, a
  \<^typ>\<open>char\<close> standing for a code point below 256.  The text extracted from a page is
  modelled as the list of its Unicode code points, so that \<^verbatim>\<open>str.strip\<close> can be given
  with Python's full whitespace table.  Paths follow \<^verbatim>\<open>posixpath\<close>.
\<close>

type_synonym path = string
type_synonym page_text = "nat list"

text \<open>
  An instance of Python's \<^verbatim>\<open>Exception\<close>, with its message: what the libraries and the
  operating system raise, and what \<^verbatim>\<open>except Exception\<close> catches.  (\<^verbatim>\<open>KeyboardInterrupt\<close>
  and \<^verbatim>\<open>SystemExit\<close> are not instances of it; no call modelled here raises them, and
  \<^verbatim>\<open>sys.exit\<close> is modelled by how a run ends.)
\<close>

datatype exn = Exception string

text \<open>\<^verbatim>\<open>str.isspace\<close> on one code point: the code points CPython classifies as whitespace.\<close>

definition isspace :: "nat \<Rightarrow> bool" where
  "isspace c \<longleftrightarrow>
     (9 \<le> c \<and> c \<le> 13) \<or> (28 \<le> c \<and> c \<le> 32) \<or> c = 133 \<or> c = 160 \<or> c = 5760 \<or>
     (8192 \<le> c \<and> c \<le> 8202) \<or> c = 8232 \<or> c = 8233 \<or> c = 8239 \<or> c = 8287 \<or> c = 12288"

text \<open>\<^verbatim>\<open>text.strip()\<close>: leading and trailing whitespace removed.\<close>

definition strip :: "page_text \<Rightarrow> page_text" where
  "strip t = rev (dropWhile isspace (rev (dropWhile isspace t)))"

text \<open>\<^verbatim>\<open>s.startswith(p)\<close> and \<^verbatim>\<open>s.endswith(p)\<close>.\<close>

definition startswith :: "string \<Rightarrow> string \<Rightarrow> bool" where
  "startswith s p \<longleftrightarrow> take (length p) s = p"

definition endswith :: "string \<Rightarrow> string \<Rightarrow> bool" where
  "endswith s p \<longleftrightarrow> length p \<le> length s \<and> drop (length s - length p) s = p"

text \<open>
  \<^verbatim>\<open>s.lower()\<close>, character by character: \<^verbatim>\<open>A\<close>..\<^verbatim>\<open>Z\<close> and the upper-case letters of
  Latin-1 (192..222 without the multiplication sign 215) move up by 32.
\<close>

definition lower_char :: "char \<Rightarrow> char" where
  "lower_char c =
     (let n = (of_char c :: nat)
      in if (65 \<le> n \<and> n \<le> 90) \<or> (192 \<le> n \<and> n \<le> 222 \<and> n \<noteq> 215)
         then char_of (n + 32) else c)"

definition lower :: "string \<Rightarrow> string" where
  "lower s = map lower_char s"

text \<open>The decimal rendering of a natural number, as an f-string prints \<^verbatim>\<open>{i+1}\<close>.\<close>

function str_nat :: "nat \<Rightarrow> string" where
  "str_nat n =
     (if n < 10 then [char_of (48 + n)]
      else str_nat (n div 10) @ [char_of (48 + n mod 10)])"
  by pat_completeness auto
termination
  by (relation "measure id") auto

declare str_nat.simps [simp del]

text \<open>\<^verbatim>\<open>p.rfind(c)\<close> for a single character: the last index of \<open>c\<close>, or \<open>-1\<close>.\<close>

definition rfind :: "string \<Rightarrow> char \<Rightarrow> int" where
  "rfind p c = int (length (dropWhile (\<lambda>x. x \<noteq> c) (rev p))) - 1"

text \<open>
  \<^verbatim>\<open>os.path.join(a, b)\<close> of \<^verbatim>\<open>posixpath\<close>: an absolute \<open>b\<close> replaces \<open>a\<close>; otherwise
  \<open>b\<close> is appended, after a separator unless \<open>a\<close> is empty or already ends with one.
\<close>

definition join :: "path \<Rightarrow> path \<Rightarrow> path" where
  "join a b =
     (if startswith b ''/'' then b
      else if a = [] \<or> endswith a ''/'' then a @ b
      else a @ ''/'' @ b)"

text \<open>\<^verbatim>\<open>os.path.basename(p)\<close>: \<^verbatim>\<open>p[p.rfind('/') + 1:]\<close>.\<close>

definition basename :: "path \<Rightarrow> path" where
  "basename p = drop (nat (rfind p CHR ''/'' + 1)) p"

text \<open>
  \<^verbatim>\<open>os.path.splitext(p)\<close> (\<^verbatim>\<open>genericpath._splitext\<close>): the extension starts at the last
  dot of the last path component, unless that component has only dots before it (the
  \<^verbatim>\<open>while\<close> loop that skips leading dots returns at the first character that is not a
  dot); then, or without a dot, the extension is empty.
\<close>

definition splitext :: "path \<Rightarrow> path \<times> path" where
  "splitext p =
     (let sepIndex = rfind p CHR ''/'';
          dotIndex = rfind p CHR ''.''
      in if dotIndex > sepIndex
         then (let filenameIndex = nat (sepIndex + 1);
                   skipped = take (nat dotIndex - filenameIndex) (drop filenameIndex p)
               in if list_ex (\<lambda>c. c \<noteq> CHR ''.'') skipped
                  then (take (nat dotIndex) p, drop (nat dotIndex) p)
                  else (p, []))
         else (p, []))"

text \<open>\<^verbatim>\<open>x or default\<close> for an optional command-line string: \<^verbatim>\<open>None\<close> and \<^verbatim>\<open>""\<close> are falsy.\<close>

definition or_default :: "string option \<Rightarrow> string \<Rightarrow> string" where
  "or_default x d = (case x of None \<Rightarrow> d | Some s \<Rightarrow> if s = [] then d else s)"

section \<open>The external collaborators\<close>

text \<open>
  The PDF parser, the speech service, the audio library and the operating system are
  outside the program.  Each call the program makes to them is a field of a record of
  outcomes, \<open>Inl\<close> being the exception the call raises; theorems hold for every such
  record.  \<open>'b\<close> is the content of a file, \<open>'s\<close> an audio sample: an \<^verbatim>\<open>AudioSegment\<close> is
  the list of its samples, \<^verbatim>\<open>AudioSegment.empty()\<close> the empty list and \<^verbatim>\<open>+=\<close> appends.
  Logging and the progress bars change nothing that the properties below observe, and
  are left out.
\<close>

text \<open>
  What \<^verbatim>\<open>combined.export(output_file, format="mp3")\<close> does: it writes the file, or it
  raises, leaving the destination untouched (\<open>None\<close>) or with some content.
\<close>

datatype 'b export_outcome = Exported 'b | Export_raises exn "'b option"

datatype os_call = Listdir | Unlink | Makedirs

record ('b, 's) services =
  PdfReader :: "path \<Rightarrow> exn + (exn + page_text) list"
    \<comment> \<open>\<^verbatim>\<open>PdfReader(input_file).pages\<close>, each page with the outcome of \<^verbatim>\<open>extract_text()\<close>\<close>
  TemporaryDirectory :: "path \<Rightarrow> exn + path"
    \<comment> \<open>the directory \<^verbatim>\<open>tempfile.TemporaryDirectory()\<close> creates while converting that input\<close>
  cleanup_tmp :: "path \<Rightarrow> exn option"
    \<comment> \<open>the exception, if any, of removing that directory when the \<^verbatim>\<open>with\<close> block is left\<close>
  gTTS_save :: "page_text \<Rightarrow> string \<Rightarrow> path \<Rightarrow> exn + 'b"
    \<comment> \<open>\<^verbatim>\<open>gTTS(text=text, lang=language).save(temp_audio_file)\<close>: the content saved\<close>
  from_mp3 :: "'b \<Rightarrow> exn + 's list"
    \<comment> \<open>\<^verbatim>\<open>AudioSegment.from_mp3\<close> on a file's content\<close>
  export :: "'s list \<Rightarrow> path \<Rightarrow> 'b export_outcome"
  os_error :: "os_call \<Rightarrow> path \<Rightarrow> exn option"
    \<comment> \<open>the \<^verbatim>\<open>OSError\<close>, if any, that a call of \<^verbatim>\<open>os\<close> on that path raises\<close>
  pool_schedule :: "nat list"
    \<comment> \<open>the order in which the workers of the pool finish their items\<close>

section \<open>The file system\<close>

text \<open>
  The file system is the list of its paths, each with what is there: a regular file with
  its content, a directory, or something else (a device, a socket).  Paths are compared
  as strings, and symbolic links are not modelled.  The entries of a directory are the
  paths \<^verbatim>\<open>join(folder, name)\<close> for a name without separator, and \<^verbatim>\<open>os.listdir\<close> returns
  them in the order of the list, which is arbitrary.  A call of \<^verbatim>\<open>os\<close> raises what
  \<^const>\<open>os_error\<close> gives for it, and otherwise the error of its own that the state of the
  file system commands: listing what is not a directory, deleting what is not there or is
  a directory, creating a directory where something else is.  \<^verbatim>\<open>os.makedirs\<close> is called
  with \<^verbatim>\<open>exist_ok=True\<close>; the intermediate directories it creates are not recorded.
\<close>

datatype 'b node = Regular 'b | Directory | Special

type_synonym 'b fs = "(path \<times> 'b node) list"

definition isfile :: "'b fs \<Rightarrow> path \<Rightarrow> bool" where
  "isfile fs p = (case map_of fs p of Some (Regular b) \<Rightarrow> True | _ \<Rightarrow> False)"

definition write_file :: "'b fs \<Rightarrow> path \<Rightarrow> 'b \<Rightarrow> 'b fs" where
  "write_file fs p b = AList.update p (Regular b) fs"

definition dir_prefix :: "path \<Rightarrow> path" where
  "dir_prefix folder = (if folder = [] \<or> endswith folder ''/'' then folder else folder @ ''/'')"

definition child_name :: "path \<Rightarrow> path \<Rightarrow> string option" where
  "child_name folder p =
     (let pre = dir_prefix folder; name = drop (length pre) p
      in if take (length pre) p = pre \<and> name \<noteq> [] \<and> CHR ''/'' \<notin> set name
         then Some name else None)"

definition listdir :: "('b, 's) services \<Rightarrow> 'b fs \<Rightarrow> path \<Rightarrow> exn + string list" where
  "listdir sv fs folder =
     (case os_error sv Listdir folder of
        Some e \<Rightarrow> Inl e
      | None \<Rightarrow>
          (case map_of fs folder of
             None \<Rightarrow> Inl (Exception ''FileNotFoundError'')
           | Some Directory \<Rightarrow> Inr (List.map_filter (\<lambda>(p, n). child_name folder p) fs)
           | Some other \<Rightarrow> Inl (Exception ''NotADirectoryError'')))"

definition unlink :: "('b, 's) services \<Rightarrow> 'b fs \<Rightarrow> path \<Rightarrow> exn + 'b fs" where
  "unlink sv fs p =
     (case os_error sv Unlink p of
        Some e \<Rightarrow> Inl e
      | None \<Rightarrow>
          (case map_of fs p of
             None \<Rightarrow> Inl (Exception ''FileNotFoundError'')
           | Some Directory \<Rightarrow> Inl (Exception ''IsADirectoryError'')
           | Some other \<Rightarrow> Inr (AList.delete p fs)))"

definition makedirs :: "('b, 's) services \<Rightarrow> 'b fs \<Rightarrow> path \<Rightarrow> exn + 'b fs" where
  "makedirs sv fs p =
     (case os_error sv Makedirs p of
        Some e \<Rightarrow> Inl e
      | None \<Rightarrow>
          (case map_of fs p of
             None \<Rightarrow> Inr (fs @ [(p, Directory)])
           | Some Directory \<Rightarrow> Inr fs
           | Some other \<Rightarrow> Inl (Exception ''FileExistsError'')))"

section \<open>\<^verbatim>\<open>pdf_to_audio\<close>\<close>

text \<open>
  The temporary directory is new and owned by the call, so its files are a store of their
  own, from path to content.  \<open>page_file temp_dir i\<close> is the path
  \<^verbatim>\<open>os.path.join(temp_dir, f"page_{i+1}.mp3")\<close>.
\<close>

definition page_file :: "path \<Rightarrow> nat \<Rightarrow> path" where
  "page_file temp_dir i = join temp_dir (''page_'' @ str_nat (i + 1) @ ''.mp3'')"

text \<open>
  The loop \<^verbatim>\<open>for i, page in enumerate(reader.pages)\<close>, from index \<open>i\<close> on: the files of
  the temporary directory and the list \<^verbatim>\<open>temp_audio_files\<close> so far are passed along; the
  first exception ends the loop.
\<close>

fun page_loop ::
  "('b, 's) services \<Rightarrow> string \<Rightarrow> path \<Rightarrow> nat \<Rightarrow> (exn + page_text) list \<Rightarrow>
   (path \<rightharpoonup> 'b) \<Rightarrow> path list \<Rightarrow> exn + (path \<rightharpoonup> 'b) \<times> path list" where
  "page_loop sv language temp_dir i [] tmp temp_audio_files = Inr (tmp, temp_audio_files)"
| "page_loop sv language temp_dir i (page # pages) tmp temp_audio_files =
     (case page of
        Inl e \<Rightarrow> Inl e
      | Inr text \<Rightarrow>
          if strip text \<noteq> [] then
            (let temp_audio_file = page_file temp_dir i
             in case gTTS_save sv text language temp_audio_file of
                  Inl e \<Rightarrow> Inl e
                | Inr b \<Rightarrow>
                    page_loop sv language temp_dir (i + 1) pages
                      (tmp(temp_audio_file \<mapsto> b)) (temp_audio_files @ [temp_audio_file]))
          else page_loop sv language temp_dir (i + 1) pages tmp temp_audio_files)"

text \<open>
  The loop \<^verbatim>\<open>for temp_file in temp_audio_files: combined += AudioSegment.from_mp3(temp_file)\<close>;
  a file that is not there raises.
\<close>

fun combine_loop ::
  "('b, 's) services \<Rightarrow> (path \<rightharpoonup> 'b) \<Rightarrow> path list \<Rightarrow> 's list \<Rightarrow> exn + 's list" where
  "combine_loop sv tmp [] combined = Inr combined"
| "combine_loop sv tmp (temp_file # files) combined =
     (case tmp temp_file of
        None \<Rightarrow> Inl (Exception ''FileNotFoundError'')
      | Some b \<Rightarrow>
          (case from_mp3 sv b of
             Inl e \<Rightarrow> Inl e
           | Inr segment \<Rightarrow> combine_loop sv tmp files (combined @ segment)))"

text \<open>The body of \<^verbatim>\<open>with tempfile.TemporaryDirectory() as temp_dir\<close> (lines 24 to 54).\<close>

definition with_temp_dir ::
  "('b, 's) services \<Rightarrow> (exn + page_text) list \<Rightarrow> path \<Rightarrow> path \<Rightarrow> string \<Rightarrow> 'b fs \<Rightarrow>
   (exn + bool) \<times> 'b fs" where
  "with_temp_dir sv pages temp_dir output_file language fs =
     (case page_loop sv language temp_dir 0 pages Map.empty [] of
        Inl e \<Rightarrow> (Inl e, fs)
      | Inr (tmp, temp_audio_files) \<Rightarrow>
          if temp_audio_files \<noteq> [] then
            (case combine_loop sv tmp temp_audio_files [] of
               Inl e \<Rightarrow> (Inl e, fs)
             | Inr combined \<Rightarrow>
                 (case export sv combined output_file of
                    Exported b \<Rightarrow> (Inr True, write_file fs output_file b)
                  | Export_raises e left \<Rightarrow>
                      (Inl e, case left of None \<Rightarrow> fs | Some b \<Rightarrow> write_file fs output_file b)))
          else (Inr False, fs))"

text \<open>
  The body of the \<^verbatim>\<open>try\<close>: the value returned, or the exception that reaches the
  \<^verbatim>\<open>except\<close> clause, with the file system as the body leaves it.  Leaving the \<^verbatim>\<open>with\<close>
  block removes the temporary directory; an exception of that removal replaces the
  block's own outcome.
\<close>

definition pdf_to_audio_try ::
  "('b, 's) services \<Rightarrow> path \<Rightarrow> path \<Rightarrow> string \<Rightarrow> 'b fs \<Rightarrow> (exn + bool) \<times> 'b fs" where
  "pdf_to_audio_try sv input_file output_file language fs =
     (case PdfReader sv input_file of
        Inl e \<Rightarrow> (Inl e, fs)
      | Inr pages \<Rightarrow>
          (case TemporaryDirectory sv input_file of
             Inl e \<Rightarrow> (Inl e, fs)
           | Inr temp_dir \<Rightarrow>
               (let (r, fs') = with_temp_dir sv pages temp_dir output_file language fs
                in case cleanup_tmp sv input_file of
                     Some e \<Rightarrow> (Inl e, fs')
                   | None \<Rightarrow> (r, fs'))))"

text \<open>\<^verbatim>\<open>except Exception\<close>: the exception is logged and the function returns \<^verbatim>\<open>False\<close>.\<close>

definition pdf_to_audio ::
  "('b, 's) services \<Rightarrow> path \<Rightarrow> path \<Rightarrow> string \<Rightarrow> 'b fs \<Rightarrow> bool \<times> 'b fs" where
  "pdf_to_audio sv input_file output_file language fs =
     (case pdf_to_audio_try sv input_file output_file language fs of
        (Inl e, fs') \<Rightarrow> (False, fs')
      | (Inr ok, fs') \<Rightarrow> (ok, fs'))"

definition process_pdf ::
  "('b, 's) services \<Rightarrow> path \<times> path \<times> string \<Rightarrow> 'b fs \<Rightarrow> bool \<times> 'b fs" where
  "process_pdf sv args fs =
     (case args of (input_file, output_file, language) \<Rightarrow>
        pdf_to_audio sv input_file output_file language fs)"

section \<open>\<^verbatim>\<open>cleanup_output_folder\<close>\<close>

text \<open>
  The loop \<^verbatim>\<open>for filename in files\<close>: the exception that ends it, if any, and the file
  system as the loop leaves it.
\<close>

fun unlink_loop ::
  "('b, 's) services \<Rightarrow> path \<Rightarrow> string list \<Rightarrow> 'b fs \<Rightarrow> exn option \<times> 'b fs" where
  "unlink_loop sv output_folder [] fs = (None, fs)"
| "unlink_loop sv output_folder (filename # files) fs =
     (let file_path = join output_folder filename
      in if isfile fs file_path then
           (case unlink sv fs file_path of
              Inl e \<Rightarrow> (Some e, fs)
            | Inr fs' \<Rightarrow> unlink_loop sv output_folder files fs')
         else unlink_loop sv output_folder files fs)"

text \<open>The body of the \<^verbatim>\<open>try\<close>: the exception that reaches the \<^verbatim>\<open>except\<close> clause, if any.\<close>

definition cleanup_output_folder_try ::
  "('b, 's) services \<Rightarrow> path \<Rightarrow> 'b fs \<Rightarrow> exn option \<times> 'b fs" where
  "cleanup_output_folder_try sv output_folder fs =
     (case listdir sv fs output_folder of
        Inl e \<Rightarrow> (Some e, fs)
      | Inr files \<Rightarrow>
          if files \<noteq> [] then unlink_loop sv output_folder files fs else (None, fs))"

text \<open>\<^verbatim>\<open>except Exception\<close>: the exception is logged, and the function returns.\<close>

definition cleanup_output_folder :: "('b, 's) services \<Rightarrow> path \<Rightarrow> 'b fs \<Rightarrow> 'b fs" where
  "cleanup_output_folder sv output_folder fs =
     snd (cleanup_output_folder_try sv output_folder fs)"

section \<open>The worker pool\<close>

text \<open>
  \<^verbatim>\<open>pool.imap(process_pdf, process_args)\<close>: every item is run once by some worker, the
  workers finish in an order the program does not control, and the result of item \<open>i\<close>
  is kept for position \<open>i\<close>.  \<open>completion_order sched k\<close> is the order of finishing that
  the schedule \<open>sched\<close> gives to \<open>k\<close> items: the indices it names, in its order, then the
  others.  An item changes the file system when it finishes.
\<close>

definition completion_order :: "nat list \<Rightarrow> nat \<Rightarrow> nat list" where
  "completion_order sched k =
     remdups (filter (\<lambda>i. i < k) sched) @ filter (\<lambda>i. i \<notin> set sched) [0..<k]"

fun run_tasks ::
  "('a \<Rightarrow> 'w \<Rightarrow> 'r \<times> 'w) \<Rightarrow> 'a list \<Rightarrow> nat list \<Rightarrow> (nat \<rightharpoonup> 'r) \<Rightarrow> 'w \<Rightarrow> (nat \<rightharpoonup> 'r) \<times> 'w" where
  "run_tasks f items [] slots w = (slots, w)"
| "run_tasks f items (i # rest) slots w =
     (case f (items ! i) w of (r, w') \<Rightarrow> run_tasks f items rest (slots(i \<mapsto> r)) w')"

definition pool_imap ::
  "nat list \<Rightarrow> ('a \<Rightarrow> 'w \<Rightarrow> 'r \<times> 'w) \<Rightarrow> 'a list \<Rightarrow> 'w \<Rightarrow> 'r list \<times> 'w" where
  "pool_imap sched f items w =
     (case run_tasks f items (completion_order sched (length items)) Map.empty w of
        (slots, w') \<Rightarrow> (List.map_filter slots [0..<length items], w'))"

section \<open>\<^verbatim>\<open>main\<close>\<close>

text \<open>
  The parsed command line: \<open>args_file a\<close> is \<^verbatim>\<open>args.file\<close>, and so on.  \<^verbatim>\<open>args.log\<close> only
  sets the level of the logger and is left out.
\<close>

record args =
  args_input :: "string option"
  args_file :: "string option"
  args_output :: "string option"
  args_language :: string
  args_clean :: bool
  args_list_languages :: bool
  args_jobs :: int

text \<open>
  How the process ends: \<^verbatim>\<open>sys.exit(n)\<close>, the end of \<^verbatim>\<open>main\<close>, or an exception nothing
  catches.  The exit status of the last is 1, as the interpreter sets it.
\<close>

datatype ending = SysExit nat | Returned | Uncaught exn

fun exit_status :: "ending \<Rightarrow> nat" where
  "exit_status (SysExit n) = n"
| "exit_status Returned = 0"
| "exit_status (Uncaught e) = 1"

text \<open>
  What a run does: how it ends, the file system it leaves, the work items handed to
  \<^verbatim>\<open>pdf_to_audio\<close> (in the order of the input), their results, and the pair the summary
  line reports.
\<close>

record 'b run =
  ended :: ending
  fs_after :: "'b fs"
  conversions :: "(path \<times> path \<times> string) list"
  outcomes :: "bool list"
  summary :: "(nat \<times> nat) option"

definition stop :: "ending \<Rightarrow> 'b fs \<Rightarrow> 'b run" where
  "stop e fs = \<lparr>ended = e, fs_after = fs, conversions = [], outcomes = [], summary = None\<rparr>"

text \<open>Lines 118 to 136: the branch \<^verbatim>\<open>if args.file:\<close>.\<close>

definition single_file :: "('b, 's) services \<Rightarrow> args \<Rightarrow> path \<Rightarrow> 'b fs \<Rightarrow> 'b run" where
  "single_file sv a f fs =
     (if \<not> isfile fs f then stop (SysExit 1) fs
      else if \<not> endswith (lower f) ''.pdf'' then stop (SysExit 1) fs
      else
        (let output_folder = or_default (args_output a) ''output''
         in case makedirs sv fs output_folder of
              Inl e \<Rightarrow> stop (Uncaught e) fs
            | Inr fs1 \<Rightarrow>
                (let output_file = join output_folder (fst (splitext (basename f)) @ ''.mp3'')
                 in case pdf_to_audio sv f output_file (args_language a) fs1 of
                      (ok, fs2) \<Rightarrow>
                        \<lparr>ended = SysExit 0, fs_after = fs2,
                         conversions = [(f, output_file, args_language a)],
                         outcomes = [ok], summary = None\<rparr>)))"

text \<open>
  Lines 139 to 148 of the conversion of a folder: both folders are created when missing,
  and the output folder is cleaned on request.  The result is the file system the
  listing will see, or the exception \<^verbatim>\<open>os.makedirs\<close> raised.
\<close>

definition prepare_folders ::
  "('b, 's) services \<Rightarrow> args \<Rightarrow> 'b fs \<Rightarrow> exn \<times> 'b fs + 'b fs" where
  "prepare_folders sv a fs =
     (let input_folder = or_default (args_input a) ''input'';
          output_folder = or_default (args_output a) ''output''
      in case makedirs sv fs input_folder of
           Inl e \<Rightarrow> Inl (e, fs)
         | Inr fs1 \<Rightarrow>
             (case makedirs sv fs1 output_folder of
                Inl e \<Rightarrow> Inl (e, fs1)
              | Inr fs2 \<Rightarrow>
                  Inr (if args_clean a then cleanup_output_folder sv output_folder fs2
                       else fs2)))"

text \<open>
  Lines 150 to 176: the PDF files of the input folder are listed, one work item is built
  for each, and the pool converts them.  \<^verbatim>\<open>multiprocessing.Pool(n)\<close> raises
  \<^verbatim>\<open>ValueError\<close> for \<open>n < 1\<close>.
\<close>

definition convert_folder :: "('b, 's) services \<Rightarrow> args \<Rightarrow> 'b fs \<Rightarrow> 'b run" where
  "convert_folder sv a fs =
     (let input_folder = or_default (args_input a) ''input'';
          output_folder = or_default (args_output a) ''output''
      in case listdir sv fs input_folder of
           Inl e \<Rightarrow> stop (Uncaught e) fs
         | Inr names \<Rightarrow>
             (let pdf_files = filter (\<lambda>f. endswith f ''.pdf'') names
              in if pdf_files = [] then stop (SysExit 1) fs
                 else
                   (let process_args =
                          map (\<lambda>filename.
                                 (join input_folder filename,
                                  join output_folder (fst (splitext filename) @ ''.mp3''),
                                  args_language a))
                              pdf_files
                    in if args_jobs a < 1
                       then stop (Uncaught (Exception ''ValueError'')) fs
                       else
                         (case pool_imap (pool_schedule sv) (process_pdf sv) process_args fs of
                            (results, fs') \<Rightarrow>
                              \<lparr>ended = Returned, fs_after = fs',
                               conversions = process_args, outcomes = results,
                               summary =
                                 Some (length (filter (\<lambda>r. r) results),
                                       length pdf_files)\<rparr>))))"

definition batch :: "('b, 's) services \<Rightarrow> args \<Rightarrow> 'b fs \<Rightarrow> 'b run" where
  "batch sv a fs =
     (case prepare_folders sv a fs of
        Inl (e, fs') \<Rightarrow> stop (Uncaught e) fs'
      | Inr fs' \<Rightarrow> convert_folder sv a fs')"

text \<open>
  \<^verbatim>\<open>main\<close>, after the command line is parsed.  \<^verbatim>\<open>if args.file:\<close> is false for an absent
  and for an empty \<^verbatim>\<open>--file\<close>.
\<close>

definition main :: "('b, 's) services \<Rightarrow> args \<Rightarrow> 'b fs \<Rightarrow> 'b run" where
  "main sv a fs =
     (if args_list_languages a then stop (SysExit 0) fs
      else
        (case args_file a of
           Some f \<Rightarrow> if f \<noteq> [] then single_file sv a f fs else batch sv a fs
         | None \<Rightarrow> batch sv a fs))"

section \<open>Notions the properties are stated with\<close>

text \<open>The value of a decimal numeral, the inverse of \<^const>\<open>str_nat\<close>.\<close>

definition decimal_value :: "string \<Rightarrow> nat" where
  "decimal_value s = foldl (\<lambda>a c. 10 * a + (of_char c - 48)) 0 s"

text \<open>
  The pages that are spoken: the pairs of \<^verbatim>\<open>enumerate\<close> whose text is not empty once
  stripped, in the order of the pages.
\<close>

definition spoken_pages :: "page_text list \<Rightarrow> (nat \<times> page_text) list" where
  "spoken_pages texts = filter (\<lambda>(i, t). strip t \<noteq> []) (List.enumerate 0 texts)"

text \<open>The audio of one page: its text synthesised into the page's file, and that decoded.\<close>

definition page_audio ::
  "('b, 's) services \<Rightarrow> string \<Rightarrow> path \<Rightarrow> nat \<times> page_text \<Rightarrow> exn + 's list" where
  "page_audio sv language temp_dir p =
     (case p of (i, t) \<Rightarrow>
        (case gTTS_save sv t language (page_file temp_dir i) of
           Inl e \<Rightarrow> Inl e
         | Inr b \<Rightarrow> from_mp3 sv b))"


section \<open>Example inputs\<close>

text \<open>
  Services that always succeed: the speech of a text is the text itself, decoding and
  encoding change nothing.  \<^verbatim>\<open>input/a.pdf\<close> has three pages, the second one blank;
  \<^verbatim>\<open>input/b.pdf\<close> has no page; \<^verbatim>\<open>input/blank.pdf\<close> has three blank pages; nothing
  else parses.
\<close>

definition example_services :: "(page_text, nat) services" where
  "example_services =
     \<lparr>PdfReader = (\<lambda>p. if p = ''input/a.pdf'' then Inr [Inr [72, 105], Inr [32, 10], Inr [79, 75]]
                      else if p = ''input/b.pdf'' then Inr []
                      else if p = ''input/blank.pdf'' then Inr [Inr [32], Inr [], Inr [10, 9]]
                      else Inl (Exception ''not a PDF'')),
      TemporaryDirectory = (\<lambda>p. Inr ''/tmp/t''),
      cleanup_tmp = (\<lambda>p. None),
      gTTS_save = (\<lambda>t l p. Inr t),
      from_mp3 = (\<lambda>b. Inr b),
      export = (\<lambda>c p. Exported c),
      os_error = (\<lambda>c p. None),
      pool_schedule = [1, 0]\<rparr>"

text \<open>The speech service fails on the third page; the encoder raises.\<close>

definition offline_services :: "(page_text, nat) services" where
  "offline_services =
     example_services\<lparr>gTTS_save :=
       (\<lambda>t l p. if p = ''/tmp/t/page_3.mp3'' then Inl (Exception ''offline'') else Inr t)\<rparr>"

definition no_encoder_services :: "(page_text, nat) services" where
  "no_encoder_services =
     example_services\<lparr>export := (\<lambda>c p. Export_raises (Exception ''no encoder'') None)\<rparr>"

text \<open>
  A file system: the output folder holds three regular files and a subdirectory with a
  file of its own; the input folder holds \<^verbatim>\<open>a.pdf\<close>, \<^verbatim>\<open>b.pdf\<close>, a file whose suffix is in
  upper case, and a text file.
\<close>

definition example_fs :: "page_text fs" where
  "example_fs =
     [(''output'', Directory),
      (''output/old.mp3'', Regular [1]),
      (''output/keep'', Directory),
      (''output/keep/x.mp3'', Regular [2]),
      (''output/b.mp3'', Regular [3]),
      (''output/c.mp3'', Regular [4]),
      (''input'', Directory),
      (''input/a.pdf'', Regular [37, 80]),
      (''input/notes.PDF'', Regular [37]),
      (''input/b.pdf'', Regular [37, 80]),
      (''input/readme.txt'', Regular [])]"

text \<open>The same services, but \<^verbatim>\<open>output/b.mp3\<close> cannot be deleted.\<close>

definition locked_services :: "(page_text, nat) services" where
  "locked_services =
     example_services\<lparr>os_error :=
       (\<lambda>c p. if c = Unlink \<and> p = ''output/b.mp3'' then Some (Exception ''PermissionError'')
              else None)\<rparr>"

text \<open>The command line of a run over the folders \<^verbatim>\<open>input\<close> and \<^verbatim>\<open>output\<close>, with four jobs.\<close>

definition example_args :: args where
  "example_args =
     \<lparr>args_input = None, args_file = None, args_output = None, args_language = ''en'',
      args_clean = False, args_list_languages = False, args_jobs = 4\<rparr>"


section \<open>Decimal numerals and the names of the page files\<close>

lemma decimal_value_str_nat: "decimal_value (str_nat n) = n"
proof (induction n rule: str_nat.induct)
  case (1 n)
  show ?case
  proof (cases "n < 10")
    case True
    then show ?thesis by (subst str_nat.simps) (simp add: decimal_value_def)
  next
    case False
    have "n mod 10 < 10" by simp
    then have d: "(48 + n mod 10) mod 256 = 48 + n mod 10" by simp
    from False 1 have "decimal_value (str_nat (n div 10)) = n div 10" by simp
    with False d show ?thesis
      by (subst str_nat.simps) (simp add: decimal_value_def)
  qed
qed

lemma str_nat_inj: "str_nat m = str_nat n \<Longrightarrow> m = n"
  by (metis decimal_value_str_nat)

lemma join_relative: "\<not> startswith b ''/'' \<Longrightarrow> join a b = dir_prefix a @ b"
  by (simp add: join_def dir_prefix_def)

lemma page_file_eq: "page_file d i = dir_prefix d @ ''page_'' @ str_nat (i + 1) @ ''.mp3''"
  by (simp add: page_file_def join_def dir_prefix_def startswith_def)

lemma page_file_inj: "page_file d i = page_file d j \<Longrightarrow> i = j"
  by (auto simp: page_file_eq dest: str_nat_inj)

lemma page_file_inj_iff [simp]: "page_file d i = page_file d j \<longleftrightarrow> i = j"
  by (auto dest: page_file_inj)

section \<open>The two loops of \<^verbatim>\<open>pdf_to_audio\<close>\<close>

lemma page_loop_extracts:
  "page_loop sv l d i pages tmp files = Inr r \<Longrightarrow> \<exists>texts. pages = map Inr texts"
proof (induction pages arbitrary: i tmp files)
  case Nil
  then show ?case by simp
next
  case (Cons p ps)
  then show ?case
    by (auto split: sum.splits if_splits simp: Let_def) (metis list.simps(9))+
qed

lemma page_loop_frame:
  "page_loop sv l d i (map Inr texts) tmp files = Inr (tmp', files') \<Longrightarrow>
   (\<forall>j\<ge>i. p \<noteq> page_file d j) \<Longrightarrow> tmp' p = tmp p"
proof (induction texts arbitrary: i tmp files)
  case Nil
  then show ?case by simp
next
  case (Cons t ts)
  show ?case
  proof (cases "strip t \<noteq> []")
    case False
    with Cons.prems have "page_loop sv l d (i + 1) (map Inr ts) tmp files = Inr (tmp', files')"
      by simp
    with Cons.IH Cons.prems(2) show ?thesis by force
  next
    case True
    with Cons.prems obtain b where b: "gTTS_save sv t l (page_file d i) = Inr b"
      and rest: "page_loop sv l d (i + 1) (map Inr ts) (tmp(page_file d i \<mapsto> b))
                   (files @ [page_file d i]) = Inr (tmp', files')"
      by (auto split: sum.splits simp: Let_def)
    from Cons.IH[OF rest] Cons.prems(2) have "tmp' p = (tmp(page_file d i \<mapsto> b)) p"
      by force
    with Cons.prems(2) show ?thesis by auto
  qed
qed

lemma page_loop_files:
  "page_loop sv l d i (map Inr texts) tmp files = Inr (tmp', files') \<Longrightarrow>
   files' = files @ map (\<lambda>(j, t). page_file d j) (filter (\<lambda>(j, t). strip t \<noteq> []) (List.enumerate i texts))"
proof (induction texts arbitrary: i tmp files)
  case Nil
  then show ?case by simp
next
  case (Cons t ts)
  show ?case
  proof (cases "strip t \<noteq> []")
    case False
    with Cons.prems have "page_loop sv l d (i + 1) (map Inr ts) tmp files = Inr (tmp', files')"
      by simp
    from Cons.IH[OF this] False show ?thesis by simp
  next
    case True
    with Cons.prems obtain b where
      rest: "page_loop sv l d (i + 1) (map Inr ts) (tmp(page_file d i \<mapsto> b))
                   (files @ [page_file d i]) = Inr (tmp', files')"
      by (auto split: sum.splits simp: Let_def)
    from Cons.IH[OF rest] True show ?thesis by simp
  qed
qed

lemma page_loop_saved:
  "page_loop sv l d i (map Inr texts) tmp files = Inr (tmp', files') \<Longrightarrow>
   (j, t) \<in> set (List.enumerate i texts) \<Longrightarrow> strip t \<noteq> [] \<Longrightarrow>
   \<exists>b. gTTS_save sv t l (page_file d j) = Inr b \<and> tmp' (page_file d j) = Some b"
proof (induction texts arbitrary: i tmp files)
  case Nil
  then show ?case by simp
next
  case (Cons u us)
  show ?case
  proof (cases "(j, t) = (i, u)")
    case True
    with Cons.prems obtain b where b: "gTTS_save sv t l (page_file d j) = Inr b"
      and rest: "page_loop sv l d (i + 1) (map Inr us) (tmp(page_file d i \<mapsto> b))
                   (files @ [page_file d i]) = Inr (tmp', files')"
      by (auto split: sum.splits simp: Let_def)
    have "tmp' (page_file d i) = (tmp(page_file d i \<mapsto> b)) (page_file d i)"
      by (rule page_loop_frame[OF rest]) auto
    with b True show ?thesis by simp
  next
    case False
    with Cons.prems(2) have mem: "(j, t) \<in> set (List.enumerate (i + 1) us)" by auto
    from Cons.prems(1) obtain tmp1 files1 where
      "page_loop sv l d (i + 1) (map Inr us) tmp1 files1 = Inr (tmp', files')"
      by (auto split: sum.splits if_splits simp: Let_def)
    from Cons.IH[OF this mem Cons.prems(3)] show ?thesis .
  qed
qed

lemma page_loop_succeeds:
  "(\<forall>(j, t) \<in> set (List.enumerate i texts). strip t \<noteq> [] \<longrightarrow> (\<exists>b. gTTS_save sv t l (page_file d j) = Inr b)) \<Longrightarrow>
   \<exists>r. page_loop sv l d i (map Inr texts) tmp files = Inr r"
proof (induction texts arbitrary: i tmp files)
  case Nil
  then show ?case by simp
next
  case (Cons u us)
  then show ?case
    by (auto split: sum.splits if_splits simp: Let_def)
qed

lemma combine_loop_pages:
  "(\<forall>(j, t) \<in> set ps. \<exists>b. tmp (page_file d j) = Some b \<and> from_mp3 sv b = Inr (seg j)) \<Longrightarrow>
   combine_loop sv tmp (map (\<lambda>(j, t). page_file d j) ps) acc =
     Inr (acc @ concat (map (\<lambda>(j, t). seg j) ps))"
proof (induction ps arbitrary: acc)
  case Nil
  then show ?case by simp
next
  case (Cons p ps)
  obtain j t where p: "p = (j, t)" by (cases p)
  from Cons.prems p obtain b where b: "tmp (page_file d j) = Some b" "from_mp3 sv b = Inr (seg j)"
    by auto
  from Cons.prems have "\<forall>(j, t) \<in> set ps. \<exists>b. tmp (page_file d j) = Some b \<and> from_mp3 sv b = Inr (seg j)"
    by simp
  from Cons.IH[OF this] p b show ?case by simp
qed

lemma combine_loop_decodes:
  "combine_loop sv tmp files acc = Inr c \<Longrightarrow> f \<in> set files \<Longrightarrow>
   \<exists>b s. tmp f = Some b \<and> from_mp3 sv b = Inr s"
proof (induction files arbitrary: acc)
  case Nil
  then show ?case by simp
next
  case (Cons g gs)
  then show ?case
    by (auto split: option.splits sum.splits)
qed

lemma spoken_pages_length:
  "length (spoken_pages texts) = length (filter (\<lambda>t. strip t \<noteq> []) texts)"
proof -
  have "map snd (filter (\<lambda>(i, t). strip t \<noteq> []) (List.enumerate n texts)) =
        filter (\<lambda>t. strip t \<noteq> []) texts" for n
    by (induction texts arbitrary: n) auto
  from this[of 0] show ?thesis
    unfolding spoken_pages_def by (metis length_map)
qed

lemma with_temp_dir_succeeds:
  assumes ok: "\<forall>p \<in> set (spoken_pages texts). page_audio sv l d p = Inr (seg (fst p))"
  shows "page_loop sv l d 0 (map Inr texts) Map.empty [] \<noteq> Inl e"
    and "page_loop sv l d 0 (map Inr texts) Map.empty [] = Inr (tmp, files) \<Longrightarrow>
         files = map (\<lambda>(j, t). page_file d j) (spoken_pages texts) \<and>
         combine_loop sv tmp files [] = Inr (concat (map (\<lambda>(j, t). seg j) (spoken_pages texts)))"
proof -
  have synth: "\<forall>(j, t) \<in> set (List.enumerate 0 texts). strip t \<noteq> [] \<longrightarrow>
                 (\<exists>b. gTTS_save sv t l (page_file d j) = Inr b)"
  proof clarify
    fix j t assume "(j, t) \<in> set (List.enumerate 0 texts)" "strip t \<noteq> []"
    then have "(j, t) \<in> set (spoken_pages texts)" by (simp add: spoken_pages_def)
    with ok have "page_audio sv l d (j, t) = Inr (seg j)" by force
    then show "\<exists>b. gTTS_save sv t l (page_file d j) = Inr b"
      by (auto simp: page_audio_def split: sum.splits)
  qed
  from page_loop_succeeds[OF synth] show "page_loop sv l d 0 (map Inr texts) Map.empty [] \<noteq> Inl e"
    by (metis Inl_Inr_False)
  assume run: "page_loop sv l d 0 (map Inr texts) Map.empty [] = Inr (tmp, files)"
  from page_loop_files[OF run] have files: "files = map (\<lambda>(j, t). page_file d j) (spoken_pages texts)"
    by (simp add: spoken_pages_def)
  have "\<forall>(j, t) \<in> set (spoken_pages texts). \<exists>b. tmp (page_file d j) = Some b \<and> from_mp3 sv b = Inr (seg j)"
  proof clarify
    fix j t assume mem: "(j, t) \<in> set (spoken_pages texts)"
    then have "(j, t) \<in> set (List.enumerate 0 texts)" "strip t \<noteq> []"
      by (simp_all add: spoken_pages_def)
    from page_loop_saved[OF run this] obtain b where
      b: "gTTS_save sv t l (page_file d j) = Inr b" "tmp (page_file d j) = Some b" by blast
    from ok mem have "page_audio sv l d (j, t) = Inr (seg j)" by force
    with b show "\<exists>b. tmp (page_file d j) = Some b \<and> from_mp3 sv b = Inr (seg j)"
      by (simp add: page_audio_def)
  qed
  from combine_loop_pages[OF this] files
  show "files = map (\<lambda>(j, t). page_file d j) (spoken_pages texts) \<and>
         combine_loop sv tmp files [] = Inr (concat (map (\<lambda>(j, t). seg j) (spoken_pages texts)))"
    by simp
qed

lemma with_temp_dir_eq:
  assumes ok: "\<forall>p \<in> set (spoken_pages texts). page_audio sv l d p = Inr (seg (fst p))"
  shows "with_temp_dir sv (map Inr texts) d out l fs =
     (if spoken_pages texts = [] then (Inr False, fs)
      else case export sv (concat (map (\<lambda>(j, t). seg j) (spoken_pages texts))) out of
             Exported b \<Rightarrow> (Inr True, write_file fs out b)
           | Export_raises e left \<Rightarrow>
               (Inl e, case left of None \<Rightarrow> fs | Some b \<Rightarrow> write_file fs out b))"
proof (cases "page_loop sv l d 0 (map Inr texts) Map.empty []")
  case (Inl e)
  with with_temp_dir_succeeds(1)[OF ok] show ?thesis by blast
next
  case (Inr r)
  obtain tmp files where r: "r = (tmp, files)" by (cases r)
  from with_temp_dir_succeeds(2)[OF ok] Inr r
  have "files = map (\<lambda>(j, t). page_file d j) (spoken_pages texts)"
    and "combine_loop sv tmp files [] = Inr (concat (map (\<lambda>(j, t). seg j) (spoken_pages texts)))"
    by blast+
  with Inr r show ?thesis
    by (simp add: with_temp_dir_def)
qed

lemma with_temp_dir_reaches_export:
  assumes "with_temp_dir sv pages d out l fs \<noteq> (Inr False, fs)"
    and "\<forall>e. with_temp_dir sv pages d out l fs \<noteq> (Inl e, fs)"
  shows "\<exists>texts seg. pages = map Inr texts \<and> spoken_pages texts \<noteq> [] \<and>
           (\<forall>p \<in> set (spoken_pages texts). page_audio sv l d p = Inr (seg (fst p)))"
proof -
  from assms obtain tmp files c where
    run: "page_loop sv l d 0 pages Map.empty [] = Inr (tmp, files)"
    and ne: "files \<noteq> []"
    and comb: "combine_loop sv tmp files [] = Inr c"
    by (auto simp: with_temp_dir_def split: sum.splits if_splits prod.splits)
  from page_loop_extracts[OF run] obtain texts where pages: "pages = map Inr texts" by blast
  note run' = run[unfolded pages]
  from page_loop_files[OF run'] have files: "files = map (\<lambda>(j, t). page_file d j) (spoken_pages texts)"
    by (simp add: spoken_pages_def)
  define seg where "seg j = (case page_audio sv l d (j, texts ! j) of Inr s \<Rightarrow> s | Inl e \<Rightarrow> [])" for j
  have "page_audio sv l d p = Inr (seg (fst p))" if mem: "p \<in> set (spoken_pages texts)" for p
  proof -
    obtain j t where p: "p = (j, t)" by (cases p)
    from mem p have en: "(j, t) \<in> set (List.enumerate 0 texts)" and nb: "strip t \<noteq> []"
      by (simp_all add: spoken_pages_def)
    from en have t: "t = texts ! j" by (simp add: in_set_enumerate_eq)
    from page_loop_saved[OF run' en nb] obtain b where
      b: "gTTS_save sv t l (page_file d j) = Inr b" "tmp (page_file d j) = Some b" by blast
    from mem p files have "page_file d j \<in> set files" by force
    from combine_loop_decodes[OF comb this] b obtain s where "from_mp3 sv b = Inr s" by auto
    with b have "page_audio sv l d (j, t) = Inr s" by (simp add: page_audio_def)
    with t p show ?thesis by (simp add: seg_def)
  qed
  with pages ne files show ?thesis by auto
qed

lemma pdf_to_audio_after_parse:
  assumes parsed: "PdfReader sv input_file = Inr (map Inr texts)"
    and tmpdir: "TemporaryDirectory sv input_file = Inr temp_dir"
    and audio: "\<forall>p \<in> set (spoken_pages texts). page_audio sv language temp_dir p = Inr (seg (fst p))"
  shows "pdf_to_audio sv input_file output_file language fs =
       (if spoken_pages texts = [] then (cleanup_tmp sv input_file \<noteq> None \<and> False, fs)
        else case export sv (concat (map (\<lambda>(i, t). seg i) (spoken_pages texts))) output_file of
               Exported b \<Rightarrow> (cleanup_tmp sv input_file = None, write_file fs output_file b)
             | Export_raises e left \<Rightarrow>
                 (False, case left of None \<Rightarrow> fs | Some b \<Rightarrow> write_file fs output_file b))"
  using parsed tmpdir with_temp_dir_eq[OF audio, of output_file fs]
  by (auto simp: pdf_to_audio_def pdf_to_audio_try_def split: export_outcome.splits option.splits)

lemma spoken_pages_set:
  "set (spoken_pages texts) = {(i, texts ! i) | i. i < length texts \<and> strip (texts ! i) \<noteq> []}"
  by (auto simp: spoken_pages_def in_set_enumerate_eq)

lemma spoken_pages_ascending: "sorted_wrt (<) (map fst (spoken_pages texts))"
proof -
  have "sorted_wrt (<) (map fst (List.enumerate 0 texts))"
    by (simp add: map_fst_enumerate)
  then have "sorted_wrt (\<lambda>p q. fst p < fst q) (List.enumerate 0 texts)"
    unfolding sorted_wrt_map .
  then have "sorted_wrt (\<lambda>p q. fst p < fst q) (spoken_pages texts)"
    unfolding spoken_pages_def by (rule sorted_wrt_filter)
  then show ?thesis
    by (simp add: sorted_wrt_map)
qed

section \<open>C1: one fragment per page with text, combined in page order\<close>

text \<open>
  C1.  When the PDF parses, every page's text is extracted, and every page whose stripped
  text is not empty is synthesised and decoded (page \<open>i\<close> giving the audio \<open>seg i\<close>), the
  loop over the pages produces exactly one fragment for each such page and none for the
  others, the files \<^verbatim>\<open>page_{i+1}.mp3\<close> in ascending order of \<open>i\<close>; their number is the
  number of pages with text (all \<open>N\<close> of them when every page has text).  The
  converter hands the encoder the audio of these pages concatenated in that order, and
  what the encoder writes becomes the one output file; with no such page it returns
  \<^verbatim>\<open>False\<close> and writes nothing.
\<close>

theorem pdf_to_audio_fragments_in_page_order:
  assumes parsed: "PdfReader sv input_file = Inr (map Inr texts)"
    and tmpdir: "TemporaryDirectory sv input_file = Inr temp_dir"
    and audio: "\<forall>p \<in> set (spoken_pages texts). page_audio sv language temp_dir p = Inr (seg (fst p))"
  shows "(\<exists>tmp. page_loop sv language temp_dir 0 (map Inr texts) Map.empty [] =
                Inr (tmp, map (\<lambda>(i, t). page_file temp_dir i) (spoken_pages texts)))
       \<and> length (spoken_pages texts) = length (filter (\<lambda>t. strip t \<noteq> []) texts)
       \<and> ((\<forall>t \<in> set texts. strip t \<noteq> []) \<longrightarrow> length (spoken_pages texts) = length texts)
       \<and> set (spoken_pages texts) =
           {(i, texts ! i) | i. i < length texts \<and> strip (texts ! i) \<noteq> []}
       \<and> sorted_wrt (<) (map fst (spoken_pages texts))
       \<and> pdf_to_audio sv input_file output_file language fs =
           (if spoken_pages texts = [] then (False, fs)
            else case export sv (concat (map (\<lambda>(i, t). seg i) (spoken_pages texts))) output_file of
                   Exported b \<Rightarrow> (cleanup_tmp sv input_file = None, write_file fs output_file b)
                 | Export_raises e left \<Rightarrow>
                     (False, case left of None \<Rightarrow> fs | Some b \<Rightarrow> write_file fs output_file b))"
proof -
  obtain r where "page_loop sv language temp_dir 0 (map Inr texts) Map.empty [] = Inr r"
    using with_temp_dir_succeeds(1)[OF audio] by (meson sum.exhaust)
  moreover obtain tmp files where "r = (tmp, files)" by (cases r)
  ultimately have "\<exists>tmp. page_loop sv language temp_dir 0 (map Inr texts) Map.empty [] =
                Inr (tmp, map (\<lambda>(i, t). page_file temp_dir i) (spoken_pages texts))"
    using with_temp_dir_succeeds(2)[OF audio] by blast
  moreover have "(\<forall>t \<in> set texts. strip t \<noteq> []) \<longrightarrow>
      length (spoken_pages texts) = length texts"
    by (simp add: spoken_pages_length)
  ultimately show ?thesis
    using spoken_pages_length spoken_pages_set spoken_pages_ascending
      pdf_to_audio_after_parse[OF parsed tmpdir audio, of output_file fs]
    by simp
qed

theorem pdf_to_audio_fragments_in_page_order_witness:
  "pdf_to_audio example_services ''input/a.pdf'' ''output/a.mp3'' ''en'' [] =
     (True, [(''output/a.mp3'', Regular [72, 105, 79, 75])])
   \<and> spoken_pages [[72, 105], [32, 10], [79, 75]] = [(0, [72, 105]), (2, [79, 75])]"
proof -
  have h1: "PdfReader example_services ''input/a.pdf'' = Inr (map Inr [[72, 105], [32, 10], [79, 75]])"
    by (simp add: example_services_def)
  have h2: "TemporaryDirectory example_services ''input/a.pdf'' = Inr ''/tmp/t''"
    by (simp add: example_services_def)
  have sp: "spoken_pages [[72, 105], [32, 10], [79, 75]] = [(0, [72, 105]), (2, [79, 75])]"
    by (simp add: spoken_pages_def enumerate_eq_zip strip_def isspace_def upt_rec)
  have h3: "\<forall>p \<in> set (spoken_pages [[72, 105], [32, 10], [79, 75]]).
              page_audio example_services ''en'' ''/tmp/t'' p =
                Inr ((\<lambda>i. if i = 0 then [72, 105] else [79, 75]) (fst p))"
    by (simp add: sp page_audio_def example_services_def)
  from pdf_to_audio_fragments_in_page_order[OF h1 h2 h3, of "''output/a.mp3''" "[]"] sp
  show ?thesis
    by (simp add: example_services_def write_file_def)
qed

section \<open>Failures of \<^verbatim>\<open>pdf_to_audio\<close>\<close>

lemma pdf_to_audio_unfinished:
  assumes "with_temp_dir sv pages d out l fs = (Inr False, fs) \<or>
           (\<exists>e. with_temp_dir sv pages d out l fs = (Inl e, fs))"
    and "PdfReader sv inp = Inr pages"
    and "TemporaryDirectory sv inp = Inr d"
  shows "pdf_to_audio sv inp out l fs = (False, fs)"
  using assms
  by (auto simp: pdf_to_audio_def pdf_to_audio_try_def split: option.splits)

lemma pdf_to_audio_no_parse:
  "PdfReader sv inp = Inl e \<Longrightarrow> pdf_to_audio sv inp out l fs = (False, fs)"
  by (simp add: pdf_to_audio_def pdf_to_audio_try_def)

lemma pdf_to_audio_no_temp_dir:
  "TemporaryDirectory sv inp = Inl e \<Longrightarrow> pdf_to_audio sv inp out l fs = (False, fs)"
  by (simp add: pdf_to_audio_def pdf_to_audio_try_def split: sum.splits)

lemma pdf_to_audio_changes_fs:
  assumes "snd (pdf_to_audio sv inp out l fs) \<noteq> fs"
  shows "\<exists>texts d seg. PdfReader sv inp = Inr (map Inr texts) \<and>
           TemporaryDirectory sv inp = Inr d \<and> spoken_pages texts \<noteq> [] \<and>
           (\<forall>p \<in> set (spoken_pages texts). page_audio sv l d p = Inr (seg (fst p)))"
proof -
  from assms obtain pages where pages: "PdfReader sv inp = Inr pages"
    using pdf_to_audio_no_parse[of sv inp _ out l fs] by (cases "PdfReader sv inp") auto
  from assms obtain d where d: "TemporaryDirectory sv inp = Inr d"
    using pdf_to_audio_no_temp_dir[of sv inp _ out l fs] by (cases "TemporaryDirectory sv inp") auto
  from assms pdf_to_audio_unfinished[OF _ pages d, of out l fs]
  have "with_temp_dir sv pages d out l fs \<noteq> (Inr False, fs)"
    and "\<forall>e. with_temp_dir sv pages d out l fs \<noteq> (Inl e, fs)"
    by auto
  from with_temp_dir_reaches_export[OF this] pages d show ?thesis by blast
qed

lemma pdf_to_audio_page_fails:
  assumes pages: "PdfReader sv inp = Inr pages"
    and bad: "Inl e \<in> set pages \<or>
       (\<exists>d i t. TemporaryDirectory sv inp = Inr d \<and> i < length pages \<and> pages ! i = Inr t \<and>
          strip t \<noteq> [] \<and> page_audio sv l d (i, t) = Inl e)"
  shows "pdf_to_audio sv inp out l fs = (False, fs)"
proof (rule ccontr)
  assume neq: "pdf_to_audio sv inp out l fs \<noteq> (False, fs)"
  show False
  proof (cases "TemporaryDirectory sv inp")
    case (Inl e')
    from pdf_to_audio_no_temp_dir[OF this] neq show False by blast
  next
    case (Inr d)
    from neq pdf_to_audio_unfinished[OF _ pages Inr, of out l fs]
    have "with_temp_dir sv pages d out l fs \<noteq> (Inr False, fs)"
      and "\<forall>e. with_temp_dir sv pages d out l fs \<noteq> (Inl e, fs)"
      by auto
    from with_temp_dir_reaches_export[OF this] obtain texts seg where
      texts: "pages = map Inr texts"
      and ok: "\<forall>p \<in> set (spoken_pages texts). page_audio sv l d p = Inr (seg (fst p))"
      by blast
    from bad show False
    proof
      assume "Inl e \<in> set pages"
      with texts show False by auto
    next
      assume "\<exists>d i t. TemporaryDirectory sv inp = Inr d \<and> i < length pages \<and> pages ! i = Inr t \<and>
          strip t \<noteq> [] \<and> page_audio sv l d (i, t) = Inl e"
      with Inr obtain i t where i: "i < length pages" "pages ! i = Inr t" "strip t \<noteq> []"
        and fails: "page_audio sv l d (i, t) = Inl e"
        by auto
      from i texts have "(i, t) \<in> set (spoken_pages texts)"
        by (auto simp: spoken_pages_set)
      with ok fails show False by force
    qed
  qed
qed

section \<open>C2: every exception becomes the result \<^verbatim>\<open>False\<close>\<close>

text \<open>
  C2.  \<^verbatim>\<open>pdf_to_audio\<close> returns a boolean for every input: an exception that reaches the
  \<^verbatim>\<open>except\<close> clause gives \<^verbatim>\<open>False\<close>.  So does each exception of a collaborator: of the
  parser on the file, of the creation of the temporary directory, of the extraction of
  some page's text, of the synthesis or the decoding of some page with text, of the
  encoder, and of the removal of the temporary directory.  Up to the encoder the file
  system is left as it was.
\<close>

theorem pdf_to_audio_exceptions_become_False:
  "(fst (pdf_to_audio_try sv input_file output_file language fs) = Inl e \<longrightarrow>
      fst (pdf_to_audio sv input_file output_file language fs) = False)
   \<and> (PdfReader sv input_file = Inl e \<longrightarrow>
        pdf_to_audio sv input_file output_file language fs = (False, fs))
   \<and> (TemporaryDirectory sv input_file = Inl e \<longrightarrow>
        pdf_to_audio sv input_file output_file language fs = (False, fs))
   \<and> (PdfReader sv input_file = Inr pages \<and> Inl e \<in> set pages \<longrightarrow>
        pdf_to_audio sv input_file output_file language fs = (False, fs))
   \<and> (PdfReader sv input_file = Inr pages \<and> TemporaryDirectory sv input_file = Inr temp_dir \<and>
      i < length pages \<and> pages ! i = Inr t \<and> strip t \<noteq> [] \<and>
      page_audio sv language temp_dir (i, t) = Inl e \<longrightarrow>
        pdf_to_audio sv input_file output_file language fs = (False, fs))
   \<and> (PdfReader sv input_file = Inr (map Inr texts) \<and>
      TemporaryDirectory sv input_file = Inr temp_dir \<and>
      (\<forall>p \<in> set (spoken_pages texts). page_audio sv language temp_dir p = Inr (seg (fst p))) \<and>
      export sv (concat (map (\<lambda>(i, t). seg i) (spoken_pages texts))) output_file =
        Export_raises e left \<longrightarrow>
        fst (pdf_to_audio sv input_file output_file language fs) = False)
   \<and> (cleanup_tmp sv input_file = Some e \<longrightarrow>
        fst (pdf_to_audio sv input_file output_file language fs) = False)"
proof (intro conjI impI)
  assume "fst (pdf_to_audio_try sv input_file output_file language fs) = Inl e"
  then show "fst (pdf_to_audio sv input_file output_file language fs) = False"
    by (auto simp: pdf_to_audio_def split: prod.splits)
next
  assume "PdfReader sv input_file = Inl e"
  then show "pdf_to_audio sv input_file output_file language fs = (False, fs)"
    by (rule pdf_to_audio_no_parse)
next
  assume "TemporaryDirectory sv input_file = Inl e"
  then show "pdf_to_audio sv input_file output_file language fs = (False, fs)"
    by (rule pdf_to_audio_no_temp_dir)
next
  assume "PdfReader sv input_file = Inr pages \<and> Inl e \<in> set pages"
  then show "pdf_to_audio sv input_file output_file language fs = (False, fs)"
    using pdf_to_audio_page_fails[of sv input_file pages e language output_file fs] by blast
next
  assume "PdfReader sv input_file = Inr pages \<and> TemporaryDirectory sv input_file = Inr temp_dir \<and>
      i < length pages \<and> pages ! i = Inr t \<and> strip t \<noteq> [] \<and>
      page_audio sv language temp_dir (i, t) = Inl e"
  then show "pdf_to_audio sv input_file output_file language fs = (False, fs)"
    using pdf_to_audio_page_fails[of sv input_file pages e language output_file fs] by blast
next
  assume a: "PdfReader sv input_file = Inr (map Inr texts) \<and>
      TemporaryDirectory sv input_file = Inr temp_dir \<and>
      (\<forall>p \<in> set (spoken_pages texts). page_audio sv language temp_dir p = Inr (seg (fst p))) \<and>
      export sv (concat (map (\<lambda>(i, t). seg i) (spoken_pages texts))) output_file =
        Export_raises e left"
  then have "PdfReader sv input_file = Inr (map Inr texts)"
    and "TemporaryDirectory sv input_file = Inr temp_dir"
    and "\<forall>p \<in> set (spoken_pages texts). page_audio sv language temp_dir p = Inr (seg (fst p))"
    by blast+
  from pdf_to_audio_after_parse[OF this, of output_file fs] a
  show "fst (pdf_to_audio sv input_file output_file language fs) = False"
    by (simp split: if_splits)
next
  assume "cleanup_tmp sv input_file = Some e"
  then show "fst (pdf_to_audio sv input_file output_file language fs) = False"
    by (simp add: pdf_to_audio_def pdf_to_audio_try_def split: sum.splits prod.splits)
qed

section \<open>C3: without text, and on a failure before the export, nothing is written\<close>

text \<open>
  C3.  When every page's stripped text is empty, and so when the PDF has no page,
  \<^verbatim>\<open>pdf_to_audio\<close> returns \<^verbatim>\<open>False\<close> and leaves the file system as it was: the
  destination is not created.  More generally the file system changes only when the
  export step was reached: the parser, the temporary directory, and the extraction,
  synthesis and decoding of every page with text all succeeded, and some page had text.
\<close>

theorem pdf_to_audio_without_text_writes_nothing:
  "(PdfReader sv input_file = Inr pages \<and> (\<forall>p \<in> set pages. \<exists>t. p = Inr t \<and> strip t = []) \<longrightarrow>
      pdf_to_audio sv input_file output_file language fs = (False, fs))
   \<and> (snd (pdf_to_audio sv input_file output_file language fs) \<noteq> fs \<longrightarrow>
       (\<exists>texts temp_dir seg.
          PdfReader sv input_file = Inr (map Inr texts) \<and>
          TemporaryDirectory sv input_file = Inr temp_dir \<and>
          spoken_pages texts \<noteq> [] \<and>
          (\<forall>p \<in> set (spoken_pages texts). page_audio sv language temp_dir p = Inr (seg (fst p)))))"
proof (intro conjI impI)
  assume a: "PdfReader sv input_file = Inr pages \<and> (\<forall>p \<in> set pages. \<exists>t. p = Inr t \<and> strip t = [])"
  then have "\<forall>p \<in> set pages. \<exists>t. p = Inr t" by blast
  then obtain texts where texts: "pages = map Inr texts"
    by (induction pages) (auto, metis list.simps(9))
  with a have blank: "\<forall>t \<in> set texts. strip t = []" by auto
  then have none: "spoken_pages texts = []"
    by (auto simp: spoken_pages_def filter_empty_conv in_set_enumerate_eq)
  show "pdf_to_audio sv input_file output_file language fs = (False, fs)"
  proof (cases "TemporaryDirectory sv input_file")
    case (Inl e)
    then show ?thesis by (rule pdf_to_audio_no_temp_dir)
  next
    case (Inr d)
    from a texts have "PdfReader sv input_file = Inr (map Inr texts)" by simp
    from pdf_to_audio_after_parse[OF this Inr, of language undefined output_file fs] none
    show ?thesis by simp
  qed
next
  assume "snd (pdf_to_audio sv input_file output_file language fs) \<noteq> fs"
  then show "\<exists>texts temp_dir seg.
          PdfReader sv input_file = Inr (map Inr texts) \<and>
          TemporaryDirectory sv input_file = Inr temp_dir \<and>
          spoken_pages texts \<noteq> [] \<and>
          (\<forall>p \<in> set (spoken_pages texts). page_audio sv language temp_dir p = Inr (seg (fst p)))"
    by (rule pdf_to_audio_changes_fs)
qed

section \<open>The example conversions, evaluated\<close>

lemma str_nat_digit: "n < 10 \<Longrightarrow> str_nat n = [char_of (48 + n)]"
  by (subst str_nat.simps) simp

lemma str_nat_1_2_3:
  "str_nat (Suc 0) = ''1''" "str_nat (Suc (Suc 0)) = ''2''" "str_nat 3 = ''3''"
  "str_nat (Suc (Suc (Suc 0))) = ''3''"
  by (simp_all add: str_nat_digit char_of_def bit_Suc_0_iff)

lemma example_page_files:
  "page_file ''/tmp/t'' 0 = ''/tmp/t/page_1.mp3''"
  "page_file ''/tmp/t'' (Suc 0) = ''/tmp/t/page_2.mp3''"
  "page_file ''/tmp/t'' (Suc (Suc 0)) = ''/tmp/t/page_3.mp3''"
  "page_file ''/tmp/t'' 2 = ''/tmp/t/page_3.mp3''"
  by (simp_all add: page_file_def join_def startswith_def endswith_def str_nat_1_2_3)

lemma example_strip:
  "strip [72, 105] = [72, 105]" "strip [32, 10] = []" "strip [79, 75] = [79, 75]"
  "strip [32] = []" "strip [] = []" "strip [10, 9] = []"
  by (simp_all add: strip_def isspace_def)

lemma example_spoken_pages:
  "spoken_pages [[72, 105], [32, 10], [79, 75]] = [(0, [72, 105]), (2, [79, 75])]"
  by (simp add: spoken_pages_def enumerate_eq_zip example_strip upt_rec)

lemma example_a_pdf:
  "pdf_to_audio example_services ''input/a.pdf'' ''output/a.mp3'' ''en'' [] =
     (True, [(''output/a.mp3'', Regular [72, 105, 79, 75])])"
  by (simp add: pdf_to_audio_def pdf_to_audio_try_def with_temp_dir_def example_services_def
        example_strip example_page_files write_file_def Let_def)

theorem pdf_to_audio_exceptions_become_False_witness:
  "pdf_to_audio example_services ''input/c.pdf'' ''output/c.mp3'' ''en'' [] = (False, [])
   \<and> pdf_to_audio offline_services ''input/a.pdf'' ''output/a.mp3'' ''en'' [] = (False, [])
   \<and> fst (pdf_to_audio no_encoder_services ''input/a.pdf'' ''output/a.mp3'' ''en'' []) = False"
proof (intro conjI)
  show "pdf_to_audio example_services ''input/c.pdf'' ''output/c.mp3'' ''en'' [] = (False, [])"
    using pdf_to_audio_exceptions_become_False
      [where sv = example_services and input_file = "''input/c.pdf''"
         and e = "Exception ''not a PDF''" and output_file = "''output/c.mp3''"
         and language = "''en''" and fs = "[]"]
    by (simp add: example_services_def)
next
  have "page_audio offline_services ''en'' ''/tmp/t'' (2, [79, 75]) = Inl (Exception ''offline'')"
    by (simp add: page_audio_def example_page_files offline_services_def)
  moreover have "strip [79, 75] \<noteq> []"
    by (simp add: example_strip)
  ultimately show "pdf_to_audio offline_services ''input/a.pdf'' ''output/a.mp3'' ''en'' [] = (False, [])"
    using pdf_to_audio_exceptions_become_False
      [where sv = offline_services and input_file = "''input/a.pdf''"
         and pages = "[Inr [72, 105], Inr [32, 10], Inr [79, 75]]" and temp_dir = "''/tmp/t''"
         and i = 2 and t = "[79, 75]" and e = "Exception ''offline''"
         and output_file = "''output/a.mp3''" and language = "''en''" and fs = "[]"]
    by (simp add: offline_services_def example_services_def)
next
  have "\<forall>p \<in> set (spoken_pages [[72, 105], [32, 10], [79, 75]]).
          page_audio no_encoder_services ''en'' ''/tmp/t'' p =
            Inr ((\<lambda>i. if i = 0 then [72, 105] else [79, 75]) (fst p))"
    by (simp add: example_spoken_pages page_audio_def no_encoder_services_def example_services_def)
  then show "fst (pdf_to_audio no_encoder_services ''input/a.pdf'' ''output/a.mp3'' ''en'' []) = False"
    using pdf_to_audio_exceptions_become_False
      [where sv = no_encoder_services and input_file = "''input/a.pdf''"
         and texts = "[[72, 105], [32, 10], [79, 75]]" and temp_dir = "''/tmp/t''"
         and seg = "\<lambda>i. if i = 0 then [72, 105] else [79, 75]"
         and e = "Exception ''no encoder''" and left = None
         and output_file = "''output/a.mp3''" and language = "''en''" and fs = "[]"]
    by (simp add: no_encoder_services_def example_services_def)
qed

theorem pdf_to_audio_without_text_writes_nothing_witness:
  "pdf_to_audio example_services ''input/b.pdf'' ''output/b.mp3'' ''en'' [] = (False, [])
   \<and> pdf_to_audio example_services ''input/blank.pdf'' ''output/blank.mp3'' ''en'' [] = (False, [])
   \<and> (\<exists>texts temp_dir seg.
          PdfReader example_services ''input/a.pdf'' = Inr (map Inr texts) \<and>
          TemporaryDirectory example_services ''input/a.pdf'' = Inr temp_dir \<and>
          spoken_pages texts \<noteq> [] \<and>
          (\<forall>p \<in> set (spoken_pages texts).
             page_audio example_services ''en'' temp_dir p = Inr (seg (fst p))))"
proof (intro conjI)
  show "pdf_to_audio example_services ''input/b.pdf'' ''output/b.mp3'' ''en'' [] = (False, [])"
    using pdf_to_audio_without_text_writes_nothing
      [where sv = example_services and input_file = "''input/b.pdf''" and pages = "[]"
         and output_file = "''output/b.mp3''" and language = "''en''" and fs = "[]"]
    by (simp add: example_services_def)
next
  from example_strip show "pdf_to_audio example_services ''input/blank.pdf'' ''output/blank.mp3'' ''en'' [] = (False, [])"
    using pdf_to_audio_without_text_writes_nothing
      [where sv = example_services and input_file = "''input/blank.pdf''"
         and pages = "[Inr [32], Inr [], Inr [10, 9]]"
         and output_file = "''output/blank.mp3''" and language = "''en''" and fs = "[]"]
    by (simp add: example_services_def)
next
  show "\<exists>texts temp_dir seg.
          PdfReader example_services ''input/a.pdf'' = Inr (map Inr texts) \<and>
          TemporaryDirectory example_services ''input/a.pdf'' = Inr temp_dir \<and>
          spoken_pages texts \<noteq> [] \<and>
          (\<forall>p \<in> set (spoken_pages texts).
             page_audio example_services ''en'' temp_dir p = Inr (seg (fst p)))"
    using pdf_to_audio_without_text_writes_nothing
      [where sv = example_services and input_file = "''input/a.pdf''"
         and output_file = "''output/a.mp3''" and language = "''en''" and fs = "[]"]
    by (simp add: example_a_pdf)
qed

section \<open>Directory entries\<close>

lemma no_sep_relative: "CHR ''/'' \<notin> set n \<Longrightarrow> \<not> startswith n ''/''"
  by (cases n) (auto simp: startswith_def)

lemma child_name_join: "child_name folder p = Some n \<Longrightarrow> join folder n = p"
proof -
  assume a: "child_name folder p = Some n"
  then have n: "n = drop (length (dir_prefix folder)) p" "n \<noteq> []" "CHR ''/'' \<notin> set n"
    and pre: "take (length (dir_prefix folder)) p = dir_prefix folder"
    by (auto simp: child_name_def Let_def split: if_splits)
  from n have "\<not> startswith n ''/''"
    by (simp add: no_sep_relative)
  then have "join folder n = dir_prefix folder @ n" by (rule join_relative)
  also have "\<dots> = take (length (dir_prefix folder)) p @ drop (length (dir_prefix folder)) p"
    using pre n by simp
  finally show ?thesis by simp
qed

lemma child_name_no_sep: "child_name folder p = Some n \<Longrightarrow> n \<noteq> [] \<and> CHR ''/'' \<notin> set n"
  by (auto simp: child_name_def Let_def split: if_splits)

lemma join_child: "n \<noteq> [] \<Longrightarrow> CHR ''/'' \<notin> set n \<Longrightarrow> child_name folder (join folder n) = Some n"
proof -
  assume n: "n \<noteq> []" "CHR ''/'' \<notin> set n"
  then have "\<not> startswith n ''/''"
    by (simp add: no_sep_relative)
  then have "join folder n = dir_prefix folder @ n" by (rule join_relative)
  with n show ?thesis by (simp add: child_name_def)
qed

lemma listdir_names:
  "listdir sv fs folder = Inr names \<Longrightarrow>
   set names = {n. \<exists>p node. (p, node) \<in> set fs \<and> child_name folder p = Some n}"
  by (force simp: listdir_def map_filter_def split: option.splits node.splits)

lemma listdir_paths:
  assumes "listdir sv fs folder = Inr names"
  shows "p \<in> join folder ` set names \<longleftrightarrow> p \<in> fst ` set fs \<and> child_name folder p \<noteq> None"
proof
  assume "p \<in> join folder ` set names"
  then obtain n where n: "n \<in> set names" "p = join folder n" by blast
  with listdir_names[OF assms] obtain q node where q: "(q, node) \<in> set fs" "child_name folder q = Some n"
    by blast
  from child_name_join[OF q(2)] n have "q = p" by simp
  with q show "p \<in> fst ` set fs \<and> child_name folder p \<noteq> None" by force
next
  assume a: "p \<in> fst ` set fs \<and> child_name folder p \<noteq> None"
  then obtain n node where n: "child_name folder p = Some n" "(p, node) \<in> set fs" by auto
  with listdir_names[OF assms] have "n \<in> set names" by blast
  with child_name_join[OF n(1)] show "p \<in> join folder ` set names" by blast
qed

lemma isfile_in_fs: "isfile fs p \<Longrightarrow> p \<in> fst ` set fs"
  by (auto simp: isfile_def split: option.splits dest: map_of_SomeD intro: rev_image_eqI)

section \<open>The loop of \<^verbatim>\<open>cleanup_output_folder\<close>\<close>

lemma isfile_delete: "isfile (AList.delete q fs) p \<longleftrightarrow> p \<noteq> q \<and> isfile fs p"
  by (simp add: isfile_def delete_conv')

lemma unlink_regular:
  "isfile fs p \<Longrightarrow> os_error sv Unlink p = None \<Longrightarrow> unlink sv fs p = Inr (AList.delete p fs)"
  by (auto simp: isfile_def unlink_def split: option.splits node.splits)

lemma unlink_raises: "os_error sv Unlink p = Some e \<Longrightarrow> unlink sv fs p = Inl e"
  by (simp add: unlink_def)

lemma unlink_loop_deletes:
  "(\<forall>n \<in> set names. os_error sv Unlink (join folder n) = None) \<Longrightarrow>
   fst (unlink_loop sv folder names fs) = None \<and>
   map_of (snd (unlink_loop sv folder names fs)) p =
     (if p \<in> join folder ` set names \<and> isfile fs p then None else map_of fs p)"
proof (induction names arbitrary: fs)
  case Nil
  then show ?case by simp
next
  case (Cons n ns)
  then have ns: "\<forall>n \<in> set ns. os_error sv Unlink (join folder n) = None"
    and n: "os_error sv Unlink (join folder n) = None" by simp_all
  show ?case
  proof (cases "isfile fs (join folder n)")
    case False
    with Cons.IH[OF ns, of fs] show ?thesis by (auto simp: Let_def)
  next
    case True
    with n have step: "unlink_loop sv folder (n # ns) fs =
        unlink_loop sv folder ns (AList.delete (join folder n) fs)"
      by (simp add: Let_def unlink_regular)
    from Cons.IH[OF ns, of "AList.delete (join folder n) fs"] True show ?thesis
      unfolding step by (auto simp: isfile_delete delete_conv')
  qed
qed

lemma unlink_loop_frame:
  "map_of (snd (unlink_loop sv folder names fs)) p = map_of fs p \<or>
   (map_of (snd (unlink_loop sv folder names fs)) p = None \<and> isfile fs p \<and>
    p \<in> join folder ` set names)"
proof (induction names arbitrary: fs)
  case Nil
  then show ?case by simp
next
  case (Cons n ns)
  show ?case
  proof (cases "isfile fs (join folder n)")
    case False
    with Cons.IH[of fs] show ?thesis by (auto simp: Let_def)
  next
    case True
    show ?thesis
    proof (cases "os_error sv Unlink (join folder n)")
      case (Some e)
      with True show ?thesis by (simp add: Let_def unlink_raises)
    next
      case None
      with True have step: "unlink_loop sv folder (n # ns) fs =
          unlink_loop sv folder ns (AList.delete (join folder n) fs)"
        by (simp add: Let_def unlink_regular)
      from Cons.IH[of "AList.delete (join folder n) fs"] True show ?thesis
        unfolding step by (auto simp: isfile_delete delete_conv' split: if_splits)
    qed
  qed
qed

lemma unlink_loop_append:
  "unlink_loop sv folder (xs @ ys) fs =
     (case unlink_loop sv folder xs fs of
        (Some e, fs') \<Rightarrow> (Some e, fs')
      | (None, fs') \<Rightarrow> unlink_loop sv folder ys fs')"
  by (induction xs arbitrary: fs) (auto simp: Let_def split: sum.splits)

lemma cleanup_listed:
  "listdir sv fs folder = Inr names \<Longrightarrow>
   cleanup_output_folder_try sv folder fs = unlink_loop sv folder names fs"
  by (cases names) (simp_all add: cleanup_output_folder_try_def)

section \<open>C7: the cleanup deletes the regular files of the folder and nothing else\<close>

text \<open>
  C7.  When the folder is listed (as \<open>names\<close>) and no deletion of a listed entry raises,
  \<^verbatim>\<open>cleanup_output_folder\<close> leaves no regular file directly inside the output folder, and
  every other path as it was.  In every case, whatever raises, a path it changes was a
  regular file directly inside the folder and is deleted: a subdirectory stays, and so
  does everything below one (the operation does not recurse).  No exception leaves the
  operation: it returns the file system in every case, and unchanged when the listing
  raises.
\<close>

theorem cleanup_output_folder_deletes_regular_files:
  "(listdir sv fs output_folder = Inr names \<and>
    (\<forall>n \<in> set names. os_error sv Unlink (join output_folder n) = None) \<longrightarrow>
      map_of (cleanup_output_folder sv output_folder fs) p =
        (if child_name output_folder p \<noteq> None \<and> isfile fs p then None else map_of fs p))
   \<and> (map_of (cleanup_output_folder sv output_folder fs) p = map_of fs p \<or>
       (map_of (cleanup_output_folder sv output_folder fs) p = None \<and> isfile fs p \<and>
        child_name output_folder p \<noteq> None))
   \<and> (listdir sv fs output_folder = Inl e \<longrightarrow>
        cleanup_output_folder sv output_folder fs = fs)"
proof (intro conjI impI)
  assume a: "listdir sv fs output_folder = Inr names \<and>
    (\<forall>n \<in> set names. os_error sv Unlink (join output_folder n) = None)"
  then have names: "listdir sv fs output_folder = Inr names"
    and quiet: "\<forall>n \<in> set names. os_error sv Unlink (join output_folder n) = None"
    by blast+
  from unlink_loop_deletes[OF quiet, where fs = fs and p = p] cleanup_listed[OF names]
  have "map_of (cleanup_output_folder sv output_folder fs) p =
     (if p \<in> join output_folder ` set names \<and> isfile fs p then None else map_of fs p)"
    by (simp add: cleanup_output_folder_def)
  with listdir_paths[OF names, of p] isfile_in_fs[of fs p]
  show "map_of (cleanup_output_folder sv output_folder fs) p =
        (if child_name output_folder p \<noteq> None \<and> isfile fs p then None else map_of fs p)"
    by auto
next
  show "map_of (cleanup_output_folder sv output_folder fs) p = map_of fs p \<or>
       (map_of (cleanup_output_folder sv output_folder fs) p = None \<and> isfile fs p \<and>
        child_name output_folder p \<noteq> None)"
  proof (cases "listdir sv fs output_folder")
    case (Inl e)
    then show ?thesis
      by (simp add: cleanup_output_folder_def cleanup_output_folder_try_def)
  next
    case (Inr names)
    from unlink_loop_frame[of sv output_folder names fs p] cleanup_listed[OF Inr]
      listdir_paths[OF Inr, of p]
    show ?thesis
      by (auto simp: cleanup_output_folder_def)
  qed
next
  assume "listdir sv fs output_folder = Inl e"
  then show "cleanup_output_folder sv output_folder fs = fs"
    by (simp add: cleanup_output_folder_def cleanup_output_folder_try_def)
qed

lemma child_name_of_join:
  assumes "child_name folder p = Some n"
  shows "child_name folder (join folder n) = Some n"
  using child_name_no_sep[OF assms] join_child[of n folder] by blast

lemma listed_is_child:
  assumes "listdir sv fs folder = Inr names" "n \<in> set names"
  shows "\<exists>p. child_name folder p = Some n"
  using listdir_names[OF assms(1)] assms(2) by blast

lemma join_listed_inj:
  assumes "listdir sv fs folder = Inr names" "n \<in> set names" "m \<in> set names"
    and "join folder n = join folder m"
  shows "n = m"
proof -
  from listed_is_child[OF assms(1,2)] obtain p where "child_name folder p = Some n" ..
  then have n: "child_name folder (join folder n) = Some n" by (rule child_name_of_join)
  from listed_is_child[OF assms(1,3)] obtain q where "child_name folder q = Some m" ..
  then have m: "child_name folder (join folder m) = Some m" by (rule child_name_of_join)
  from n m assms(4) show ?thesis by (metis option.inject)
qed

section \<open>C10: a failing deletion ends the cleanup\<close>

text \<open>
  C10.  The cleanup is not atomic per file.  When the deletion of the regular file \<open>name\<close>
  raises (the deletions before it in the listing raising nothing), the exception reaches
  the \<^verbatim>\<open>except\<close> clause and the loop is abandoned: the result is the file system as the
  deletions before \<open>name\<close> left it, so \<open>name\<close> and every entry after it in the listing
  are left in place, while the regular files before it are gone.  The operation still
  returns normally.
\<close>

theorem cleanup_output_folder_stops_at_first_failure:
  assumes listing: "listdir sv fs output_folder = Inr (before @ name # after)"
    and dist: "distinct (before @ name # after)"
    and before: "\<forall>n \<in> set before. os_error sv Unlink (join output_folder n) = None"
    and regular: "isfile fs (join output_folder name)"
    and fails: "os_error sv Unlink (join output_folder name) = Some e"
  shows "cleanup_output_folder_try sv output_folder fs =
           (Some e, snd (unlink_loop sv output_folder before fs))
       \<and> cleanup_output_folder sv output_folder fs = snd (unlink_loop sv output_folder before fs)
       \<and> (\<forall>n \<in> set (name # after).
            map_of (cleanup_output_folder sv output_folder fs) (join output_folder n) =
            map_of fs (join output_folder n))
       \<and> (\<forall>n \<in> set before. isfile fs (join output_folder n) \<longrightarrow>
            map_of (cleanup_output_folder sv output_folder fs) (join output_folder n) = None)"
proof -
  let ?fs1 = "snd (unlink_loop sv output_folder before fs)"
  note del = unlink_loop_deletes[OF before, where fs = fs]
  have del2: "map_of ?fs1 p =
      (if p \<in> join output_folder ` set before \<and> isfile fs p then None else map_of fs p)" for p
    using del[of p] by (rule conjunct2)
  have untouched: "map_of ?fs1 (join output_folder n) = map_of fs (join output_folder n)"
    if n: "n \<in> set (name # after)" for n
  proof -
    have notin: "join output_folder n \<notin> join output_folder ` set before"
    proof
      assume "join output_folder n \<in> join output_folder ` set before"
      then obtain m where m: "m \<in> set before" "join output_folder n = join output_folder m"
        by blast
      from n have n': "n \<in> set (before @ name # after)" by auto
      from m(1) have m': "m \<in> set (before @ name # after)" by simp
      from join_listed_inj[OF listing n' m' m(2)] have "n = m" .
      moreover from dist have "set before \<inter> set (name # after) = {}"
        by (simp only: distinct_append)
      ultimately show False using n m(1) by blast
    qed
    show ?thesis
      by (subst del2) (simp only: notin simp_thms if_False)
  qed
  have none: "fst (unlink_loop sv output_folder before fs) = None"
    using del[of undefined] by (rule conjunct1)
  then obtain fs1 where run: "unlink_loop sv output_folder before fs = (None, fs1)"
    by (cases "unlink_loop sv output_folder before fs") auto
  then have fs1: "snd (unlink_loop sv output_folder before fs) = fs1" by simp
  from untouched[of name] regular have "isfile fs1 (join output_folder name)"
    unfolding fs1 by (simp add: isfile_def)
  with fails have step: "unlink_loop sv output_folder (name # after) fs1 = (Some e, fs1)"
    by (simp add: Let_def unlink_def)
  have loop: "unlink_loop sv output_folder (before @ name # after) fs = (Some e, fs1)"
    by (simp only: unlink_loop_append run prod.case option.case step)
  with cleanup_listed[OF listing]
  have body: "cleanup_output_folder_try sv output_folder fs = (Some e, fs1)" by simp
  then have res: "cleanup_output_folder sv output_folder fs = fs1"
    by (simp add: cleanup_output_folder_def)
  have gone: "\<forall>n \<in> set before. isfile fs (join output_folder n) \<longrightarrow>
            map_of fs1 (join output_folder n) = None"
    using del2 unfolding fs1 by simp
  from untouched have kept: "\<forall>n \<in> set (name # after).
            map_of fs1 (join output_folder n) = map_of fs (join output_folder n)"
    unfolding fs1 by blast
  from body gone kept show ?thesis
    unfolding res fs1 by blast
qed

section \<open>The example folders, evaluated\<close>

lemma example_child_names:
  "child_name ''output'' ''output'' = None"
  "child_name ''output'' ''output/old.mp3'' = Some ''old.mp3''"
  "child_name ''output'' ''output/keep'' = Some ''keep''"
  "child_name ''output'' ''output/keep/x.mp3'' = None"
  "child_name ''output'' ''output/b.mp3'' = Some ''b.mp3''"
  "child_name ''output'' ''output/c.mp3'' = Some ''c.mp3''"
  "child_name ''output'' ''input'' = None"
  "child_name ''output'' ''input/a.pdf'' = None"
  "child_name ''output'' ''input/notes.PDF'' = None"
  "child_name ''output'' ''input/b.pdf'' = None"
  "child_name ''output'' ''input/readme.txt'' = None"
  by (simp_all add: child_name_def dir_prefix_def endswith_def)

lemma example_output_listing:
  "listdir sv example_fs ''output'' =
     (case os_error sv Listdir ''output'' of
        Some e \<Rightarrow> Inl e
      | None \<Rightarrow> Inr [''old.mp3'', ''keep'', ''b.mp3'', ''c.mp3''])"
  by (simp add: listdir_def example_fs_def map_filter_simps example_child_names
        split: option.splits)

lemma example_output_paths:
  "join ''output'' ''old.mp3'' = ''output/old.mp3''"
  "join ''output'' ''keep'' = ''output/keep''"
  "join ''output'' ''b.mp3'' = ''output/b.mp3''"
  "join ''output'' ''c.mp3'' = ''output/c.mp3''"
  by (simp_all add: join_def startswith_def endswith_def)

theorem cleanup_output_folder_deletes_regular_files_witness:
  "map_of (cleanup_output_folder example_services ''output'' example_fs) ''output/old.mp3'' = None
   \<and> map_of (cleanup_output_folder example_services ''output'' example_fs) ''output/keep'' =
       Some Directory
   \<and> map_of (cleanup_output_folder example_services ''output'' example_fs) ''output/keep/x.mp3'' =
       Some (Regular [2])
   \<and> map_of (cleanup_output_folder example_services ''output'' example_fs) ''input/a.pdf'' =
       Some (Regular [37, 80])"
proof (intro conjI)
  note T = cleanup_output_folder_deletes_regular_files
             [where sv = example_services and output_folder = "''output''" and fs = example_fs
                and names = "[''old.mp3'', ''keep'', ''b.mp3'', ''c.mp3'']"]
  have ok: "listdir example_services example_fs ''output'' =
              Inr [''old.mp3'', ''keep'', ''b.mp3'', ''c.mp3''] \<and>
            (\<forall>n \<in> set [''old.mp3'', ''keep'', ''b.mp3'', ''c.mp3''].
               os_error example_services Unlink (join ''output'' n) = None)"
    by (simp add: example_output_listing example_services_def)
  show "map_of (cleanup_output_folder example_services ''output'' example_fs) ''output/old.mp3'' = None"
    using T[where p = "''output/old.mp3''"] ok
    by (simp add: example_child_names isfile_def example_fs_def)
  show "map_of (cleanup_output_folder example_services ''output'' example_fs) ''output/keep'' =
       Some Directory"
    using T[where p = "''output/keep''"] ok
    by (simp add: example_child_names isfile_def example_fs_def)
  show "map_of (cleanup_output_folder example_services ''output'' example_fs) ''output/keep/x.mp3'' =
       Some (Regular [2])"
    using T[where p = "''output/keep/x.mp3''"] ok
    by (simp add: example_child_names isfile_def example_fs_def)
  show "map_of (cleanup_output_folder example_services ''output'' example_fs) ''input/a.pdf'' =
       Some (Regular [37, 80])"
    using T[where p = "''input/a.pdf''"] ok
    by (simp add: example_child_names isfile_def example_fs_def)
qed

theorem cleanup_output_folder_stops_at_first_failure_witness:
  "cleanup_output_folder locked_services ''output'' example_fs =
     [(''output'', Directory),
      (''output/keep'', Directory),
      (''output/keep/x.mp3'', Regular [2]),
      (''output/b.mp3'', Regular [3]),
      (''output/c.mp3'', Regular [4]),
      (''input'', Directory),
      (''input/a.pdf'', Regular [37, 80]),
      (''input/notes.PDF'', Regular [37]),
      (''input/b.pdf'', Regular [37, 80]),
      (''input/readme.txt'', Regular [])]"
proof -
  have listing: "listdir locked_services example_fs ''output'' =
      Inr ([''old.mp3'', ''keep''] @ ''b.mp3'' # [''c.mp3''])"
    by (simp add: example_output_listing locked_services_def)
  have dist: "distinct ([''old.mp3'', ''keep''] @ ''b.mp3'' # [''c.mp3''])"
    by simp
  have before: "\<forall>n \<in> set [''old.mp3'', ''keep''].
      os_error locked_services Unlink (join ''output'' n) = None"
    by (simp add: example_output_paths locked_services_def)
  have regular: "isfile example_fs (join ''output'' ''b.mp3'')"
    by (simp add: example_output_paths isfile_def example_fs_def)
  have fails: "os_error locked_services Unlink (join ''output'' ''b.mp3'') =
      Some (Exception ''PermissionError'')"
    by (simp add: example_output_paths locked_services_def)
  from cleanup_output_folder_stops_at_first_failure[OF listing dist before regular fails]
  have "cleanup_output_folder locked_services ''output'' example_fs =
      snd (unlink_loop locked_services ''output'' [''old.mp3'', ''keep''] example_fs)"
    by blast
  also have "\<dots> = [(''output'', Directory),
      (''output/keep'', Directory),
      (''output/keep/x.mp3'', Regular [2]),
      (''output/b.mp3'', Regular [3]),
      (''output/c.mp3'', Regular [4]),
      (''input'', Directory),
      (''input/a.pdf'', Regular [37, 80]),
      (''input/notes.PDF'', Regular [37]),
      (''input/b.pdf'', Regular [37, 80]),
      (''input/readme.txt'', Regular [])]"
    by (simp add: example_output_paths isfile_def example_fs_def unlink_def locked_services_def
          example_services_def AList.delete_eq)
  finally show ?thesis .
qed

section \<open>Letter case and suffixes\<close>




lemma endswith_iff: "endswith s p \<longleftrightarrow> (\<exists>stem. s = stem @ p)"
proof
  assume "endswith s p"
  then have "s = take (length s - length p) s @ p"
    by (metis append_take_drop_id endswith_def)
  then show "\<exists>stem. s = stem @ p" ..
next
  assume "\<exists>stem. s = stem @ p"
  then show "endswith s p" by (auto simp: endswith_def)
qed



section \<open>Base names and extensions\<close>

lemma rfind_append_without:
  "c \<notin> set n \<Longrightarrow> rfind (pre @ n) c = rfind pre c"
proof -
  assume "c \<notin> set n"
  then have "dropWhile (\<lambda>x. x \<noteq> c) (rev n @ rev pre) = dropWhile (\<lambda>x. x \<noteq> c) (rev pre)"
    by (intro dropWhile_append2) auto
  then show ?thesis by (simp add: rfind_def)
qed

lemma rfind_last: "c \<notin> set n \<Longrightarrow> rfind (pre @ c # n) c = int (length pre)"
proof -
  assume "c \<notin> set n"
  then have "rfind (pre @ c # n) c = rfind ((pre @ [c]) @ n) c" by simp
  also have "\<dots> = rfind (pre @ [c]) c"
    using \<open>c \<notin> set n\<close> by (rule rfind_append_without)
  also have "\<dots> = int (length pre)" by (simp add: rfind_def)
  finally show ?thesis .
qed

lemma rfind_absent: "c \<notin> set p \<Longrightarrow> rfind p c = - 1"
  using rfind_append_without[of c p "[]"] by (simp add: rfind_def)




lemma splitext_name:
  assumes "CHR ''/'' \<notin> set (s @ ext)" and "CHR ''.'' \<notin> set ext"
  shows "splitext (s @ CHR ''.'' # ext) =
           (if \<exists>c \<in> set s. c \<noteq> CHR ''.'' then (s, CHR ''.'' # ext) else (s @ CHR ''.'' # ext, []))"
proof -
  from assms(1) have "CHR ''/'' \<notin> set (s @ CHR ''.'' # ext)" by simp
  then have sep: "rfind (s @ CHR ''.'' # ext) CHR ''/'' = - 1" by (rule rfind_absent)
  from assms(2) have dot: "rfind (s @ CHR ''.'' # ext) CHR ''.'' = int (length s)" by (rule rfind_last)
  show ?thesis
    by (simp add: splitext_def sep dot list_ex_iff)
qed

lemma splitext_no_dot: "CHR ''.'' \<notin> set p \<Longrightarrow> splitext p = (p, [])"
proof -
  assume a: "CHR ''.'' \<notin> set p"
  then have "rfind p CHR ''.'' = - 1" by (rule rfind_absent)
  moreover have "- 1 \<le> rfind p CHR ''/''" by (simp add: rfind_def)
  ultimately show ?thesis by (simp add: splitext_def Let_def)
qed

section \<open>The work items of a run\<close>




lemma main_cases:
  "main sv a fs = stop (SysExit 0) fs \<and> args_list_languages a
   \<or> (\<exists>f. main sv a fs = single_file sv a f fs \<and> \<not> args_list_languages a \<and>
          args_file a = Some f \<and> f \<noteq> [])
   \<or> (\<exists>e fs'. main sv a fs = stop (Uncaught e) fs' \<and> prepare_folders sv a fs = Inl (e, fs'))
   \<or> (\<exists>fs'. main sv a fs = convert_folder sv a fs' \<and> prepare_folders sv a fs = Inr fs')"
  by (auto simp: main_def batch_def split: option.splits sum.splits)

section \<open>C8: the destination is the stem of the input's base name, with \<^verbatim>\<open>.mp3\<close>\<close>


section \<open>The single-file branch\<close>



section \<open>C5: the exit status of a single-file run\<close>


section \<open>C9: the suffix check of single-file mode ignores letter case\<close>


section \<open>The conversion of a folder\<close>

lemma convert_folder_none:
  "listdir sv fs (or_default (args_input a) ''input'') = Inr names \<Longrightarrow>
   filter (\<lambda>n. endswith n ''.pdf'') names = [] \<Longrightarrow>
   convert_folder sv a fs = stop (SysExit 1) fs"
  by (simp add: convert_folder_def)

lemma convert_folder_no_pool:
  "listdir sv fs (or_default (args_input a) ''input'') = Inr names \<Longrightarrow>
   filter (\<lambda>n. endswith n ''.pdf'') names \<noteq> [] \<Longrightarrow> args_jobs a < 1 \<Longrightarrow>
   convert_folder sv a fs = stop (Uncaught (Exception ''ValueError'')) fs"
  by (simp add: convert_folder_def)

lemma convert_folder_pool:
  assumes "listdir sv fs (or_default (args_input a) ''input'') = Inr names"
    and "filter (\<lambda>n. endswith n ''.pdf'') names \<noteq> []" and "1 \<le> args_jobs a"
  shows "\<exists>items. items =
             map (\<lambda>filename.
                    (join (or_default (args_input a) ''input'') filename,
                     join (or_default (args_output a) ''output'')
                       (fst (splitext filename) @ ''.mp3''),
                     args_language a))
                 (filter (\<lambda>n. endswith n ''.pdf'') names) \<and>
           convert_folder sv a fs =
             \<lparr>ended = Returned,
              fs_after = snd (pool_imap (pool_schedule sv) (process_pdf sv) items fs),
              conversions = items,
              outcomes = fst (pool_imap (pool_schedule sv) (process_pdf sv) items fs),
              summary = Some (length (filter (\<lambda>r. r)
                                (fst (pool_imap (pool_schedule sv) (process_pdf sv) items fs))),
                              length items)\<rparr>"
  using assms
  by (simp add: convert_folder_def Let_def split: prod.splits)

lemma batch_mode:
  assumes "\<not> args_list_languages a" and "args_file a = None \<or> args_file a = Some []"
    and "prepare_folders sv a fs = Inr fs'"
  shows "main sv a fs = convert_folder sv a fs'"
  using assms by (auto simp: main_def batch_def)

section \<open>C6: batch mode selects the names ending with \<^verbatim>\<open>.pdf\<close>\<close>

text \<open>
  C6.  In batch mode (no \<^verbatim>\<open>--list-languages\<close>, no or an empty \<^verbatim>\<open>--file\<close>), once the
  folders are prepared and the input folder is listed as \<open>names\<close>: the work items are
  those of the listed names that end with exactly the four characters \<^verbatim>\<open>.pdf\<close>, in the
  order of the listing; with no such name the run exits with status 1 and attempts no
  conversion; with some, the exit status is 0 (or 1 when the pool cannot be created for
  a job count below 1), whatever the conversions return.
\<close>

theorem batch_selects_pdf_suffix:
  assumes "\<not> args_list_languages a" and "args_file a = None \<or> args_file a = Some []"
    and "prepare_folders sv a fs = Inr fs'"
    and "listdir sv fs' (or_default (args_input a) ''input'') = Inr names"
  shows "(filter (\<lambda>n. endswith n ''.pdf'') names = [] \<longrightarrow>
            exit_status (ended (main sv a fs)) = 1 \<and> conversions (main sv a fs) = [])
       \<and> (filter (\<lambda>n. endswith n ''.pdf'') names \<noteq> [] \<longrightarrow>
            exit_status (ended (main sv a fs)) = (if args_jobs a < 1 then 1 else 0))
       \<and> (filter (\<lambda>n. endswith n ''.pdf'') names \<noteq> [] \<and> 1 \<le> args_jobs a \<longrightarrow>
            map fst (conversions (main sv a fs)) =
              map (join (or_default (args_input a) ''input''))
                (filter (\<lambda>n. endswith n ''.pdf'') names))
       \<and> (\<forall>n. endswith n ''.pdf'' \<longleftrightarrow> (\<exists>stem. n = stem @ ''.pdf''))"
proof -
  note m = batch_mode[OF assms(1-3)]
  have none: "filter (\<lambda>n. endswith n ''.pdf'') names = [] \<longrightarrow>
            exit_status (ended (main sv a fs)) = 1 \<and> conversions (main sv a fs) = []"
  proof
    assume "filter (\<lambda>n. endswith n ''.pdf'') names = []"
    from convert_folder_none[OF assms(4) this]
    show "exit_status (ended (main sv a fs)) = 1 \<and> conversions (main sv a fs) = []"
      by (simp add: m stop_def)
  qed
  have status: "filter (\<lambda>n. endswith n ''.pdf'') names \<noteq> [] \<longrightarrow>
            exit_status (ended (main sv a fs)) = (if args_jobs a < 1 then 1 else 0)"
  proof
    assume ne: "filter (\<lambda>n. endswith n ''.pdf'') names \<noteq> []"
    show "exit_status (ended (main sv a fs)) = (if args_jobs a < 1 then 1 else 0)"
    proof (cases "args_jobs a < 1")
      case True
      from convert_folder_no_pool[OF assms(4) ne True] True show ?thesis
        by (simp add: m stop_def)
    next
      case False
      then have "1 \<le> args_jobs a" by simp
      from convert_folder_pool[OF assms(4) ne this] False show ?thesis
        by (auto simp: m)
    qed
  qed
  have selected: "filter (\<lambda>n. endswith n ''.pdf'') names \<noteq> [] \<and> 1 \<le> args_jobs a \<longrightarrow>
            map fst (conversions (main sv a fs)) =
              map (join (or_default (args_input a) ''input''))
                (filter (\<lambda>n. endswith n ''.pdf'') names)"
  proof
    assume "filter (\<lambda>n. endswith n ''.pdf'') names \<noteq> [] \<and> 1 \<le> args_jobs a"
    then have ne: "filter (\<lambda>n. endswith n ''.pdf'') names \<noteq> []" and j: "1 \<le> args_jobs a"
      by blast+
    from convert_folder_pool[OF assms(4) ne j]
    show "map fst (conversions (main sv a fs)) =
              map (join (or_default (args_input a) ''input''))
                (filter (\<lambda>n. endswith n ''.pdf'') names)"
      by (auto simp: m comp_def)
  qed
  have suffix: "\<forall>n. endswith n ''.pdf'' \<longleftrightarrow> (\<exists>stem. n = stem @ ''.pdf'')"
    by (simp add: endswith_iff)
  from none status selected suffix show ?thesis by blast
qed

section \<open>The worker pool keeps the order of the input\<close>

lemma with_temp_dir_result:
  "fst (with_temp_dir sv pages d out l fs) = fst (with_temp_dir sv pages d out l fs')"
  by (simp add: with_temp_dir_def split: sum.splits prod.splits export_outcome.splits)

lemma pdf_to_audio_result:
  "fst (pdf_to_audio sv inp out l fs) = fst (pdf_to_audio sv inp out l fs')"
proof -
  have "fst (pdf_to_audio_try sv inp out l fs) = fst (pdf_to_audio_try sv inp out l fs')"
    using with_temp_dir_result[of sv _ _ out l fs fs']
    by (auto simp: pdf_to_audio_try_def split: sum.splits prod.splits option.splits)
       (metis fst_conv)+
  then show ?thesis
    by (auto simp: pdf_to_audio_def split: sum.splits prod.splits)
qed

lemma process_pdf_result: "fst (process_pdf sv item fs) = fst (process_pdf sv item fs')"
  by (cases item) (simp add: process_pdf_def pdf_to_audio_result[of sv _ _ _ fs fs'])

lemma run_tasks_slots:
  assumes "\<And>x w w'. fst (f x w) = fst (f x w')"
  shows "fst (run_tasks f items order slots w) i =
           (if i \<in> set order then Some (fst (f (items ! i) w0)) else slots i)"
proof (induction order arbitrary: slots w)
  case Nil
  then show ?case by simp
next
  case (Cons j order)
  obtain r w' where step: "f (items ! j) w = (r, w')" by (cases "f (items ! j) w")
  then have r: "r = fst (f (items ! j) w0)"
    using assms[of "items ! j" w w0] by simp
  have "fst (run_tasks f items (j # order) slots w) i =
        fst (run_tasks f items order (slots(j \<mapsto> r)) w') i"
    using step by simp
  also have "\<dots> = (if i \<in> set order then Some (fst (f (items ! i) w0))
                    else (slots(j \<mapsto> r)) i)"
    by (rule Cons)
  also have "\<dots> = (if i \<in> set (j # order) then Some (fst (f (items ! i) w0)) else slots i)"
    using r by auto
  finally show ?case .
qed

lemma completion_order_set: "set (completion_order sched k) = {0..<k}"
  by (auto simp: completion_order_def)

lemma pool_imap_results:
  assumes "\<And>x w w'. fst (f x w) = fst (f x w')"
  shows "fst (pool_imap sched f items w) = map (\<lambda>x. fst (f x w0)) items"
proof -
  let ?slots = "fst (run_tasks f items (completion_order sched (length items)) Map.empty w)"
  have slot: "?slots i = Some (fst (f (items ! i) w0))" if "i < length items" for i
    using run_tasks_slots[of f items "completion_order sched (length items)" Map.empty w i w0, OF assms]
      that
    by (simp add: completion_order_set)
  have "List.map_filter ?slots [0..<length items] = map (\<lambda>i. fst (f (items ! i) w0)) [0..<length items]"
    unfolding map_filter_def
    by (rule trans[OF arg_cong[where f = "map (the \<circ> ?slots)"]], rule filter_True)
       (auto simp: slot)
  also have "\<dots> = map (\<lambda>x. fst (f x w0)) items"
    by (rule nth_equalityI) simp_all
  finally show ?thesis
    by (cases "run_tasks f items (completion_order sched (length items)) Map.empty w")
       (simp add: pool_imap_def)
qed

text \<open>The schedule of the pool is read by the pool only.\<close>

lemma schedule_os [simp]:
  "listdir (sv\<lparr>pool_schedule := sched\<rparr>) = listdir sv"
  "unlink (sv\<lparr>pool_schedule := sched\<rparr>) = unlink sv"
  "makedirs (sv\<lparr>pool_schedule := sched\<rparr>) = makedirs sv"
  by (simp_all add: fun_eq_iff listdir_def unlink_def makedirs_def)

lemma schedule_unlink_loop [simp]:
  "unlink_loop (sv\<lparr>pool_schedule := sched\<rparr>) folder names fs = unlink_loop sv folder names fs"
  by (induction names arbitrary: fs) (simp_all add: Let_def split: sum.splits)

lemma schedule_prepare_folders [simp]:
  "prepare_folders (sv\<lparr>pool_schedule := sched\<rparr>) a fs = prepare_folders sv a fs"
  by (simp add: prepare_folders_def cleanup_output_folder_def cleanup_output_folder_try_def
        Let_def split: sum.splits)

lemma schedule_page_loop [simp]:
  "page_loop (sv\<lparr>pool_schedule := sched\<rparr>) l d i pages tmp files =
   page_loop sv l d i pages tmp files"
  by (induction pages arbitrary: i tmp files) (simp_all add: Let_def split: sum.splits)

lemma schedule_combine_loop [simp]:
  "combine_loop (sv\<lparr>pool_schedule := sched\<rparr>) tmp files acc = combine_loop sv tmp files acc"
  by (induction files arbitrary: acc) (simp_all split: option.splits sum.splits)

lemma schedule_pdf_to_audio [simp]:
  "pdf_to_audio (sv\<lparr>pool_schedule := sched\<rparr>) inp out l fs = pdf_to_audio sv inp out l fs"
  by (simp add: pdf_to_audio_def pdf_to_audio_try_def with_temp_dir_def
        split: sum.splits prod.splits option.splits export_outcome.splits)

lemma schedule_process_pdf [simp]:
  "process_pdf (sv\<lparr>pool_schedule := sched\<rparr>) = process_pdf sv"
  by (simp add: fun_eq_iff process_pdf_def)

lemma convert_folder_outcomes:
  "outcomes (convert_folder sv a fs) =
     map (\<lambda>item. fst (process_pdf sv item fs0)) (conversions (convert_folder sv a fs))"
proof (cases "listdir sv fs (or_default (args_input a) ''input'')")
  case (Inl e)
  then show ?thesis by (simp add: convert_folder_def stop_def)
next
  case (Inr names)
  show ?thesis
  proof (cases "filter (\<lambda>n. endswith n ''.pdf'') names = []")
    case True
    from convert_folder_none[OF Inr this] show ?thesis by (simp add: stop_def)
  next
    case False
    show ?thesis
    proof (cases "args_jobs a < 1")
      case True
      from convert_folder_no_pool[OF Inr False this] show ?thesis by (simp add: stop_def)
    next
      case no: False
      then have "1 \<le> args_jobs a" by simp
      from convert_folder_pool[OF Inr False this] obtain items where
        "convert_folder sv a fs =
             \<lparr>ended = Returned,
              fs_after = snd (pool_imap (pool_schedule sv) (process_pdf sv) items fs),
              conversions = items,
              outcomes = fst (pool_imap (pool_schedule sv) (process_pdf sv) items fs),
              summary = Some (length (filter (\<lambda>r. r)
                                (fst (pool_imap (pool_schedule sv) (process_pdf sv) items fs))),
                              length items)\<rparr>"
        by blast
      then show ?thesis
        by (simp add: pool_imap_results[of "process_pdf sv" _ _ _ fs0, OF process_pdf_result])
    qed
  qed
qed

lemma convert_folder_summary:
  "ended (convert_folder sv a fs) = Returned \<Longrightarrow>
   summary (convert_folder sv a fs) =
     Some (length (filter (\<lambda>r. r) (outcomes (convert_folder sv a fs))),
           length (conversions (convert_folder sv a fs)))"
  by (auto simp: convert_folder_def stop_def Let_def split: sum.splits if_splits prod.splits)

lemma convert_folder_conversions_schedule:
  "conversions (convert_folder (sv\<lparr>pool_schedule := sched\<rparr>) a fs) =
   conversions (convert_folder sv a fs)"
  by (auto simp: convert_folder_def stop_def Let_def split: sum.splits if_splits prod.splits)

lemma main_returned:
  "ended (main sv a fs) = Returned \<Longrightarrow>
   \<exists>fs'. main sv a fs = convert_folder sv a fs'"
  using main_cases[of sv a fs]
  by (auto simp: stop_def single_file_def Let_def split: if_splits sum.splits prod.splits)

lemma main_schedule_outcomes:
  "outcomes (main (sv\<lparr>pool_schedule := sched\<rparr>) a fs) = outcomes (main sv a fs)"
proof -
  have conv: "outcomes (convert_folder (sv\<lparr>pool_schedule := sched\<rparr>) a fs') =
              outcomes (convert_folder sv a fs')" for fs'
    using convert_folder_outcomes[of "sv\<lparr>pool_schedule := sched\<rparr>" a fs' fs']
      convert_folder_outcomes[of sv a fs' fs']
    by (simp add: convert_folder_conversions_schedule)
  have single: "single_file (sv\<lparr>pool_schedule := sched\<rparr>) a f fs = single_file sv a f fs" for f
    by (simp add: single_file_def Let_def split: sum.splits)
  show ?thesis
    by (simp add: main_def batch_def conv single stop_def split: option.splits sum.splits prod.splits)
qed

section \<open>C4: the results of a batch follow the order of the input\<close>

text \<open>
  C4.  When a batch run completes, the list of results has one entry for each work item
  handed to the pool, and entry \<open>i\<close> is the boolean \<^verbatim>\<open>pdf_to_audio\<close> returns on item \<open>i\<close>
  (which does not depend on the file system it finds, here \<open>fs0\<close>).  The summary
  reports the number of items whose conversion returns \<^verbatim>\<open>True\<close>, out of the number of
  items.  The results are the same for every order \<open>sched\<close> in which the workers finish.
\<close>

theorem batch_results_follow_input_order:
  assumes "ended (main sv a fs) = Returned"
  shows "length (outcomes (main sv a fs)) = length (conversions (main sv a fs))
       \<and> outcomes (main sv a fs) =
           map (\<lambda>item. fst (process_pdf sv item fs0)) (conversions (main sv a fs))
       \<and> summary (main sv a fs) =
           Some (length (filter (\<lambda>item. fst (process_pdf sv item fs0)) (conversions (main sv a fs))),
                 length (conversions (main sv a fs)))
       \<and> outcomes (main (sv\<lparr>pool_schedule := sched\<rparr>) a fs) = outcomes (main sv a fs)"
proof -
  from main_returned[OF assms] obtain fs' where m: "main sv a fs = convert_folder sv a fs'" ..
  note out = convert_folder_outcomes[of sv a fs' fs0]
  from assms m have "ended (convert_folder sv a fs') = Returned" by simp
  from convert_folder_summary[OF this]
  have "summary (convert_folder sv a fs') =
      Some (length (filter (\<lambda>item. fst (process_pdf sv item fs0))
                      (conversions (convert_folder sv a fs'))),
            length (conversions (convert_folder sv a fs')))"
    by (subst (asm) out) (simp add: filter_map comp_def)
  with out main_schedule_outcomes[where sv = sv and sched = sched and a = a and fs = fs]
  show ?thesis
    by (simp add: m)
qed

section \<open>The example runs, evaluated\<close>

lemma example_input_child_names:
  "child_name ''input'' ''output'' = None"
  "child_name ''input'' ''output/old.mp3'' = None"
  "child_name ''input'' ''output/keep'' = None"
  "child_name ''input'' ''output/keep/x.mp3'' = None"
  "child_name ''input'' ''output/b.mp3'' = None"
  "child_name ''input'' ''output/c.mp3'' = None"
  "child_name ''input'' ''input'' = None"
  "child_name ''input'' ''input/a.pdf'' = Some ''a.pdf''"
  "child_name ''input'' ''input/notes.PDF'' = Some ''notes.PDF''"
  "child_name ''input'' ''input/b.pdf'' = Some ''b.pdf''"
  "child_name ''input'' ''input/readme.txt'' = Some ''readme.txt''"
  by (simp_all add: child_name_def dir_prefix_def endswith_def)

lemma example_input_listing:
  "listdir example_services example_fs ''input'' =
     Inr [''a.pdf'', ''notes.PDF'', ''b.pdf'', ''readme.txt'']"
  by (simp add: listdir_def example_fs_def map_filter_simps example_input_child_names
        example_services_def)

lemma example_prepare:
  "prepare_folders example_services example_args example_fs = Inr example_fs"
  by (simp add: prepare_folders_def example_args_def or_default_def makedirs_def
        example_services_def example_fs_def)

lemma example_pdf_files:
  "filter (\<lambda>n. endswith n ''.pdf'') [''a.pdf'', ''notes.PDF'', ''b.pdf'', ''readme.txt''] =
     [''a.pdf'', ''b.pdf'']"
  by (simp add: endswith_def)

lemma example_stems:
  "fst (splitext ''a.pdf'') = ''a''" "fst (splitext ''b.pdf'') = ''b''"
  using splitext_name[of "''a''" "''pdf''"] splitext_name[of "''b''" "''pdf''"]
  by simp_all

lemma example_batch_run:
  "ended (main example_services example_args example_fs) = Returned"
  "conversions (main example_services example_args example_fs) =
     [(''input/a.pdf'', ''output/a.mp3'', ''en''), (''input/b.pdf'', ''output/b.mp3'', ''en'')]"
proof -
  have mode: "\<not> args_list_languages example_args"
    "args_file example_args = None \<or> args_file example_args = Some []"
    by (simp_all add: example_args_def)
  have folders: "or_default (args_input example_args) ''input'' = ''input''"
    "or_default (args_output example_args) ''output'' = ''output''"
    by (simp_all add: example_args_def or_default_def)
  have listing: "listdir example_services example_fs
      (or_default (args_input example_args) ''input'') =
        Inr [''a.pdf'', ''notes.PDF'', ''b.pdf'', ''readme.txt'']"
    by (simp add: folders example_input_listing)
  have ne: "filter (\<lambda>n. endswith n ''.pdf'') [''a.pdf'', ''notes.PDF'', ''b.pdf'', ''readme.txt''] \<noteq> []"
    unfolding example_pdf_files by simp
  have j: "1 \<le> args_jobs example_args" by (simp add: example_args_def)
  have paths: "join ''input'' ''a.pdf'' = ''input/a.pdf''" "join ''input'' ''b.pdf'' = ''input/b.pdf''"
    "join ''output'' ''a.mp3'' = ''output/a.mp3''" "join ''output'' ''b.mp3'' = ''output/b.mp3''"
    by (simp_all add: join_def startswith_def endswith_def)
  from convert_folder_pool[OF listing ne j] obtain items where
    items: "items =
             map (\<lambda>filename.
                    (join (or_default (args_input example_args) ''input'') filename,
                     join (or_default (args_output example_args) ''output'')
                       (fst (splitext filename) @ ''.mp3''),
                     args_language example_args))
                 (filter (\<lambda>n. endswith n ''.pdf'')
                    [''a.pdf'', ''notes.PDF'', ''b.pdf'', ''readme.txt''])"
    and run: "ended (convert_folder example_services example_args example_fs) = Returned"
      "conversions (convert_folder example_services example_args example_fs) = items"
    by auto
  from items have "items =
      [(''input/a.pdf'', ''output/a.mp3'', ''en''), (''input/b.pdf'', ''output/b.mp3'', ''en'')]"
    unfolding example_pdf_files folders
    by (simp add: example_stems paths example_args_def)
  with run batch_mode[OF mode example_prepare]
  show "ended (main example_services example_args example_fs) = Returned"
    and "conversions (main example_services example_args example_fs) =
     [(''input/a.pdf'', ''output/a.mp3'', ''en''), (''input/b.pdf'', ''output/b.mp3'', ''en'')]"
    by simp_all
qed

lemma example_b_pdf:
  "pdf_to_audio example_services ''input/b.pdf'' ''output/b.mp3'' ''en'' [] = (False, [])"
  by (simp add: pdf_to_audio_def pdf_to_audio_try_def with_temp_dir_def example_services_def)

theorem batch_results_follow_input_order_witness:
  "outcomes (main example_services example_args example_fs) = [True, False]
   \<and> summary (main example_services example_args example_fs) = Some (1, 2)
   \<and> outcomes (main (example_services\<lparr>pool_schedule := [0, 1]\<rparr>) example_args example_fs) =
       outcomes (main example_services example_args example_fs)"
  using batch_results_follow_input_order
          [OF example_batch_run(1), where ?fs0.0 = "[]" and sched = "[0, 1]"]
  by (simp add: example_batch_run(2) process_pdf_def example_a_pdf example_b_pdf)


theorem batch_selects_pdf_suffix_witness:
  "exit_status (ended (main example_services example_args example_fs)) = 0
   \<and> map fst (conversions (main example_services example_args example_fs)) =
       [''input/a.pdf'', ''input/b.pdf'']
   \<and> exit_status (ended (main example_services (example_args\<lparr>args_jobs := 0\<rparr>) example_fs)) = 1"
proof (intro conjI)
  have mode: "\<not> args_list_languages example_args"
    "args_file example_args = None \<or> args_file example_args = Some []"
    by (simp_all add: example_args_def)
  have folders: "or_default (args_input example_args) ''input'' = ''input''"
    by (simp add: example_args_def or_default_def)
  have listing: "listdir example_services example_fs
      (or_default (args_input example_args) ''input'') =
        Inr [''a.pdf'', ''notes.PDF'', ''b.pdf'', ''readme.txt'']"
    by (simp add: folders example_input_listing)
  note T = batch_selects_pdf_suffix[OF mode example_prepare listing]
  have j: "args_jobs example_args = 4" by (simp add: example_args_def)
  from T show "exit_status (ended (main example_services example_args example_fs)) = 0"
    by (simp add: example_pdf_files j)
  from T show "map fst (conversions (main example_services example_args example_fs)) =
       [''input/a.pdf'', ''input/b.pdf'']"
    by (simp add: example_pdf_files j folders join_def startswith_def endswith_def)
  have mode0: "\<not> args_list_languages (example_args\<lparr>args_jobs := 0\<rparr>)"
    "args_file (example_args\<lparr>args_jobs := 0\<rparr>) = None \<or>
     args_file (example_args\<lparr>args_jobs := 0\<rparr>) = Some []"
    by (simp_all add: example_args_def)
  have prep0: "prepare_folders example_services (example_args\<lparr>args_jobs := 0\<rparr>) example_fs =
      Inr example_fs"
    by (simp add: prepare_folders_def example_args_def or_default_def makedirs_def
          example_services_def example_fs_def)
  have listing0: "listdir example_services example_fs
      (or_default (args_input (example_args\<lparr>args_jobs := 0\<rparr>)) ''input'') =
        Inr [''a.pdf'', ''notes.PDF'', ''b.pdf'', ''readme.txt'']"
    using listing by simp
  from batch_selects_pdf_suffix[OF mode0 prep0 listing0]
  show "exit_status (ended (main example_services (example_args\<lparr>args_jobs := 0\<rparr>) example_fs)) = 1"
    by (simp add: example_pdf_files)
qed









end
